theory Spec2Isabelle
  imports Main "HOL-Library.Sublist"
begin

section \<open>The auth pipeline (pkg/service/auth\_pipeline.go)\<close>

subsection \<open>Data model\<close>

text \<open>
  A config is referred to by its address (a \<open>nat\<close>). The lists of an APIConfig hold values of the
  interface \<open>common.AuthConfigEvaluator\<close>; the dynamic type of such a value is one of the three
  config pointer types. The type assertions of the consumer loops
  (\<^verbatim>\<open>conf, _ := resp.Evaluator.(*config.IdentityConfig)\<close>) yield the pointer, or the nil pointer
  (\<open>None\<close>) when the dynamic type is another one; the nil pointer is a legal map key in Go.
\<close>

datatype AuthConfigEvaluator = IdentityConfig nat | MetadataConfig nat | AuthorizationConfig nat

fun asIdentityConfig :: "AuthConfigEvaluator \<Rightarrow> nat option" where
  "asIdentityConfig (IdentityConfig c) = Some c"
| "asIdentityConfig _ = None"

fun asMetadataConfig :: "AuthConfigEvaluator \<Rightarrow> nat option" where
  "asMetadataConfig (MetadataConfig c) = Some c"
| "asMetadataConfig _ = None"

fun asAuthorizationConfig :: "AuthConfigEvaluator \<Rightarrow> nat option" where
  "asAuthorizationConfig (AuthorizationConfig c) = Some c"
| "asAuthorizationConfig _ = None"

text \<open>
  \<open>Object\<close> is an \<^verbatim>\<open>interface{}\<close> and \<open>Error\<close> an \<^verbatim>\<open>error\<close>: \<open>None\<close> is Go's nil.
\<close>

record ('o, 'e) EvaluationResponse =
  Evaluator :: AuthConfigEvaluator
  Object :: "'o option"
  Error :: "'e option"

definition Success :: "('o, 'e) EvaluationResponse \<Rightarrow> bool" where
  "Success evresp = (Error evresp = None)"

definition newEvaluationResponse ::
  "AuthConfigEvaluator \<Rightarrow> 'o option \<Rightarrow> 'e option \<Rightarrow> ('o, 'e) EvaluationResponse" where
  "newEvaluationResponse evaluator obj err = \<lparr>Evaluator = evaluator, Object = obj, Error = err\<rparr>"

text \<open>
  The config package is not part of the sources; an APIConfig is used by the pipeline as three
  lists of evaluators, and a CheckRequest through its field \<open>Attributes\<close> only.
\<close>

record APIConfig =
  IdentityConfigs :: "AuthConfigEvaluator list"
  MetadataConfigs :: "AuthConfigEvaluator list"
  AuthorizationConfigs :: "AuthConfigEvaluator list"

record 'a CheckRequest =
  Attributes :: 'a

text \<open>
  \<open>ParentContext\<close> records whether the parent context is already cancelled. The three result maps
  are Go maps from a config pointer to an \<^verbatim>\<open>interface{}\<close>.
\<close>

record ('o, 'a) AuthPipeline =
  ParentContext :: bool
  Request :: "'a CheckRequest"
  API :: APIConfig
  Identity :: "nat option \<rightharpoonup> 'o option"
  Metadata :: "nat option \<rightharpoonup> 'o option"
  Authorization :: "nat option \<rightharpoonup> 'o option"

definition NewAuthPipeline :: "bool \<Rightarrow> 'a CheckRequest \<Rightarrow> APIConfig \<Rightarrow> ('o, 'a) AuthPipeline" where
  "NewAuthPipeline parentCtx req apiConfig =
     \<lparr>ParentContext = parentCtx, Request = req, API = apiConfig,
      Identity = Map.empty, Metadata = Map.empty, Authorization = Map.empty\<rparr>"

subsection \<open>The concurrent runner\<close>

text \<open>
  \<open>evaluateAuthConfig\<close> is the body of one goroutine. \<open>ctx_err\<close> says whether
  \<open>common.CheckContext\<close> found the context cancelled, \<open>call_result\<close> is the pair returned by
  \<open>config.Call\<close>, and the two flags say whether the success and the failure callback are the
  \<open>cancel\<close> function (\<open>True\<close>) or nil (\<open>False\<close>). The result is what is sent on the response
  channel and whether \<open>cancel\<close> was called.
\<close>

definition evaluateAuthConfig ::
  "AuthConfigEvaluator \<Rightarrow> bool \<Rightarrow> 'o option \<times> 'e option \<Rightarrow> bool \<Rightarrow> bool \<Rightarrow>
     ('o, 'e) EvaluationResponse list \<times> bool" where
  "evaluateAuthConfig config ctx_err call_result successCallback failureCallback =
     (if ctx_err then ([], False)
      else (case call_result of
              (authObj, Some err) \<Rightarrow> ([newEvaluationResponse config None (Some err)], failureCallback)
            | (authObj, None) \<Rightarrow> ([newEvaluationResponse config authObj None], successCallback)))"

text \<open>
  The goroutines of \<open>evaluateAuthConfigs\<close> run concurrently. An interleaving is a list of events:
  goroutine \<open>i\<close> performs its context check, the \<open>Call\<close> of goroutine \<open>i\<close> returns (the goroutine
  then sends its response and runs its callback), or the parent context is cancelled from
  outside. An event that is not enabled is ignored. \<open>waitGroup.Wait()\<close> returns once every
  goroutine is done, so whatever the schedule leaves unfinished is run to its end (\<open>drain\<close>).
\<close>

datatype event = CheckContext nat | CallReturns nat | ParentCancelled

record ('o, 'e) runner =
  ctx_done :: bool
  waiting :: "nat list"
  calling :: "nat list"
  respChannel :: "('o, 'e) EvaluationResponse list"

type_synonym ('o, 'e) authConfigEvaluationStrategy =
  "AuthConfigEvaluator \<Rightarrow> bool \<Rightarrow> 'o option \<times> 'e option \<Rightarrow> ('o, 'e) EvaluationResponse list \<times> bool"

fun step ::
  "AuthConfigEvaluator list \<Rightarrow> (AuthConfigEvaluator \<Rightarrow> bool \<Rightarrow> 'o option \<times> 'e option) \<Rightarrow>
   ('o, 'e) authConfigEvaluationStrategy \<Rightarrow> ('o, 'e) runner \<Rightarrow> event \<Rightarrow> ('o, 'e) runner" where
  "step authConfigs call es st ParentCancelled = st\<lparr>ctx_done := True\<rparr>"
| "step authConfigs call es st (CheckContext i) =
     (if i \<in> set (waiting st) then
        (if ctx_done st then st\<lparr>waiting := removeAll i (waiting st)\<rparr>
         else st\<lparr>waiting := removeAll i (waiting st), calling := calling st @ [i]\<rparr>)
      else st)"
| "step authConfigs call es st (CallReturns i) =
     (if i \<in> set (calling st) then
        (case es (authConfigs ! i) False (call (authConfigs ! i) (ctx_done st)) of
           (out, cancel) \<Rightarrow>
             st\<lparr>calling := removeAll i (calling st),
                respChannel := respChannel st @ out,
                ctx_done := (ctx_done st \<or> cancel)\<rparr>)
      else st)"

definition drain :: "('o, 'e) runner \<Rightarrow> event list" where
  "drain st = map CallReturns (calling st) @
              concat (map (\<lambda>i. [CheckContext i, CallReturns i]) (waiting st))"

definition evaluateAuthConfigs ::
  "AuthConfigEvaluator list \<Rightarrow> bool \<Rightarrow> (AuthConfigEvaluator \<Rightarrow> bool \<Rightarrow> 'o option \<times> 'e option) \<Rightarrow>
   event list \<Rightarrow> ('o, 'e) authConfigEvaluationStrategy \<Rightarrow> ('o, 'e) EvaluationResponse list" where
  "evaluateAuthConfigs authConfigs parentCtx call schedule es =
     (let st0 = \<lparr>ctx_done = parentCtx, waiting = [0..<length authConfigs], calling = [],
                 respChannel = []\<rparr>;
          st1 = foldl (step authConfigs call es) st0 schedule;
          st2 = foldl (step authConfigs call es) st1 (drain st1)
      in respChannel st2)"

definition evaluateOneAuthConfig ::
  "AuthConfigEvaluator list \<Rightarrow> bool \<Rightarrow> (AuthConfigEvaluator \<Rightarrow> bool \<Rightarrow> 'o option \<times> 'e option) \<Rightarrow>
   event list \<Rightarrow> ('o, 'e) EvaluationResponse list" where
  "evaluateOneAuthConfig authConfigs parentCtx call schedule =
     evaluateAuthConfigs authConfigs parentCtx call schedule
       (\<lambda>conf ctx_err res. evaluateAuthConfig conf ctx_err res True False)"

definition evaluateAllAuthConfigs ::
  "AuthConfigEvaluator list \<Rightarrow> bool \<Rightarrow> (AuthConfigEvaluator \<Rightarrow> bool \<Rightarrow> 'o option \<times> 'e option) \<Rightarrow>
   event list \<Rightarrow> ('o, 'e) EvaluationResponse list" where
  "evaluateAllAuthConfigs authConfigs parentCtx call schedule =
     evaluateAuthConfigs authConfigs parentCtx call schedule
       (\<lambda>conf ctx_err res. evaluateAuthConfig conf ctx_err res False True)"

definition evaluateAnyAuthConfig ::
  "AuthConfigEvaluator list \<Rightarrow> bool \<Rightarrow> (AuthConfigEvaluator \<Rightarrow> bool \<Rightarrow> 'o option \<times> 'e option) \<Rightarrow>
   event list \<Rightarrow> ('o, 'e) EvaluationResponse list" where
  "evaluateAnyAuthConfig authConfigs parentCtx call schedule =
     evaluateAuthConfigs authConfigs parentCtx call schedule
       (\<lambda>conf ctx_err res. evaluateAuthConfig conf ctx_err res False False)"

subsection \<open>The three phases and Evaluate\<close>

text \<open>
  The environment of one run of \<open>Evaluate\<close>: what \<open>Call\<close> returns for an evaluator (given the
  pipeline it reads and whether its context is cancelled when it returns), and the interleaving
  of the goroutines of each phase.
\<close>

record ('o, 'e, 'a) environment =
  Call :: "AuthConfigEvaluator \<Rightarrow> ('o, 'a) AuthPipeline \<Rightarrow> bool \<Rightarrow> 'o option \<times> 'e option"
  identitySchedule :: "event list"
  metadataSchedule :: "event list"
  authorizationSchedule :: "event list"

text \<open>
  The \<^verbatim>\<open>for resp := range respChannel\<close> loop of each phase, over the responses in the order in
  which they arrive. The identity and the authorization loop may return before the channel is
  exhausted; the last component is what they leave unread.
\<close>

fun evaluateIdentityConfigs_range ::
  "('o, 'e) EvaluationResponse list \<Rightarrow> 'e option \<Rightarrow> ('o, 'a) AuthPipeline \<Rightarrow>
     'e option \<times> ('o, 'a) AuthPipeline \<times> ('o, 'e) EvaluationResponse list" where
  "evaluateIdentityConfigs_range [] lastError pipeline = (lastError, pipeline, [])"
| "evaluateIdentityConfigs_range (resp # rest) lastError pipeline =
     (if Success resp then
        (None,
         pipeline\<lparr>Identity := (Identity pipeline)(asIdentityConfig (Evaluator resp) \<mapsto> Object resp)\<rparr>,
         rest)
      else evaluateIdentityConfigs_range rest (Error resp) pipeline)"

definition identityChannel ::
  "('o, 'e, 'a) environment \<Rightarrow> ('o, 'a) AuthPipeline \<Rightarrow> ('o, 'e) EvaluationResponse list" where
  "identityChannel env pipeline =
     evaluateOneAuthConfig (IdentityConfigs (API pipeline)) (ParentContext pipeline)
       (\<lambda>config. Call env config pipeline) (identitySchedule env)"

definition evaluateIdentityConfigs ::
  "('o, 'e, 'a) environment \<Rightarrow> ('o, 'a) AuthPipeline \<Rightarrow> 'e option \<times> ('o, 'a) AuthPipeline" where
  "evaluateIdentityConfigs env pipeline =
     (case evaluateIdentityConfigs_range (identityChannel env pipeline) None pipeline of
        (err, pipeline', unread) \<Rightarrow> (err, pipeline'))"

fun evaluateMetadataConfigs_range ::
  "('o, 'e) EvaluationResponse list \<Rightarrow> ('o, 'a) AuthPipeline \<Rightarrow> ('o, 'a) AuthPipeline" where
  "evaluateMetadataConfigs_range [] pipeline = pipeline"
| "evaluateMetadataConfigs_range (resp # rest) pipeline =
     (if Success resp then
        evaluateMetadataConfigs_range rest
          (pipeline\<lparr>Metadata := (Metadata pipeline)(asMetadataConfig (Evaluator resp) \<mapsto> Object resp)\<rparr>)
      else evaluateMetadataConfigs_range rest pipeline)"

definition metadataChannel ::
  "('o, 'e, 'a) environment \<Rightarrow> ('o, 'a) AuthPipeline \<Rightarrow> ('o, 'e) EvaluationResponse list" where
  "metadataChannel env pipeline =
     evaluateAnyAuthConfig (MetadataConfigs (API pipeline)) (ParentContext pipeline)
       (\<lambda>config. Call env config pipeline) (metadataSchedule env)"

definition evaluateMetadataConfigs ::
  "('o, 'e, 'a) environment \<Rightarrow> ('o, 'a) AuthPipeline \<Rightarrow> ('o, 'a) AuthPipeline" where
  "evaluateMetadataConfigs env pipeline =
     evaluateMetadataConfigs_range (metadataChannel env pipeline) pipeline"

fun evaluateAuthorizationConfigs_range ::
  "('o, 'e) EvaluationResponse list \<Rightarrow> ('o, 'a) AuthPipeline \<Rightarrow>
     'e option \<times> ('o, 'a) AuthPipeline \<times> ('o, 'e) EvaluationResponse list" where
  "evaluateAuthorizationConfigs_range [] pipeline = (None, pipeline, [])"
| "evaluateAuthorizationConfigs_range (resp # rest) pipeline =
     (if Success resp then
        evaluateAuthorizationConfigs_range rest
          (pipeline\<lparr>Authorization :=
              (Authorization pipeline)(asAuthorizationConfig (Evaluator resp) \<mapsto> Object resp)\<rparr>)
      else (Error resp, pipeline, rest))"

definition authorizationChannel ::
  "('o, 'e, 'a) environment \<Rightarrow> ('o, 'a) AuthPipeline \<Rightarrow> ('o, 'e) EvaluationResponse list" where
  "authorizationChannel env pipeline =
     evaluateAllAuthConfigs (AuthorizationConfigs (API pipeline)) (ParentContext pipeline)
       (\<lambda>config. Call env config pipeline) (authorizationSchedule env)"

definition evaluateAuthorizationConfigs ::
  "('o, 'e, 'a) environment \<Rightarrow> ('o, 'a) AuthPipeline \<Rightarrow> 'e option \<times> ('o, 'a) AuthPipeline" where
  "evaluateAuthorizationConfigs env pipeline =
     (case evaluateAuthorizationConfigs_range (authorizationChannel env pipeline) pipeline of
        (err, pipeline', unread) \<Rightarrow> (err, pipeline'))"

definition Evaluate ::
  "('o, 'e, 'a) environment \<Rightarrow> ('o, 'a) AuthPipeline \<Rightarrow> 'e option \<times> ('o, 'a) AuthPipeline" where
  "Evaluate env pipeline =
     (case evaluateIdentityConfigs env pipeline of
        (Some err, pipeline1) \<Rightarrow> (Some err, pipeline1)
      | (None, pipeline1) \<Rightarrow>
          (let pipeline2 = evaluateMetadataConfigs env pipeline1 in
           (case evaluateAuthorizationConfigs env pipeline2 of
              (Some err, pipeline3) \<Rightarrow> (Some err, pipeline3)
            | (None, pipeline3) \<Rightarrow> (None, pipeline3))))"

subsection \<open>Resolved identity, resolved metadata and the data for authorization\<close>

text \<open>
  A \<^verbatim>\<open>range\<close> over a Go map visits every key once, in an order that the language leaves open.
  The order is a parameter of the model: the list of the keys as the loop visits them.
  \<open>GetResolvedIdentity\<close> returns two \<^verbatim>\<open>interface{}\<close> values: the first holds the config pointer
  (\<open>None\<close> is the nil interface, \<open>Some None\<close> an interface that holds the nil pointer).
\<close>

fun GetResolvedIdentity_range ::
  "nat option list \<Rightarrow> (nat option \<rightharpoonup> 'o option) \<Rightarrow> nat option option \<times> 'o option" where
  "GetResolvedIdentity_range [] identity = (None, None)"
| "GetResolvedIdentity_range (identityConfig # rest) identity =
     (case identity identityConfig of
        Some (Some identityObj) \<Rightarrow> (Some identityConfig, Some identityObj)
      | _ \<Rightarrow> GetResolvedIdentity_range rest identity)"

definition GetResolvedIdentity ::
  "nat option list \<Rightarrow> ('o, 'a) AuthPipeline \<Rightarrow> nat option option \<times> 'o option" where
  "GetResolvedIdentity order pipeline = GetResolvedIdentity_range order (Identity pipeline)"

definition GetResolvedMetadata ::
  "nat option list \<Rightarrow> ('o, 'a) AuthPipeline \<Rightarrow> (nat option \<rightharpoonup> 'o option)" where
  "GetResolvedMetadata order pipeline =
     fold (\<lambda>metadataCfg m.
             (case Metadata pipeline metadataCfg of
                Some (Some metadataObj) \<Rightarrow> m(metadataCfg \<mapsto> Some metadataObj)
              | _ \<Rightarrow> m))
          order Map.empty"

definition GetRequest :: "('o, 'a) AuthPipeline \<Rightarrow> 'a CheckRequest" where
  "GetRequest pipeline = Request pipeline"

text \<open>
  The values of \<^verbatim>\<open>authData map[string]interface{}\<close> are the resolved identity object and the
  map \<^verbatim>\<open>resolvedMetadata map[string]interface{}\<close>. The struct \<open>authorizationData\<close> has the JSON
  tags \<^verbatim>\<open>context\<close> (field \<open>Context\<close>) and \<^verbatim>\<open>auth\<close> (field \<open>AuthData\<close>).
\<close>

datatype 'o authValue = Interface "'o option" | MetadataMap "string \<rightharpoonup> 'o option"

record ('o, 'a) authorizationData =
  Context :: 'a
  AuthData :: "string \<rightharpoonup> 'o authValue"

text \<open>
  The visiting orders of the three loops over maps: over \<open>pipeline.Identity\<close>, over
  \<open>pipeline.Metadata\<close>, and over the map that \<open>GetResolvedMetadata\<close> returns.
\<close>

record iteration =
  identityOrder :: "nat option list"
  metadataOrder :: "nat option list"
  resolvedOrder :: "nat option list"

text \<open>
  \<open>GetName\<close> is the method of \<open>common.NamedConfigEvaluator\<close>; the config package is not part of
  the sources, so the method is a parameter.
\<close>

definition GetDataForAuthorization ::
  "(nat option \<Rightarrow> string) \<Rightarrow> iteration \<Rightarrow> ('o, 'a) AuthPipeline \<Rightarrow> ('o, 'a) authorizationData" where
  "GetDataForAuthorization GetName it pipeline =
     (let authData = Map.empty(''identity'' \<mapsto>
                        Interface (snd (GetResolvedIdentity (identityOrder it) pipeline)));
          resolved = GetResolvedMetadata (metadataOrder it) pipeline;
          resolvedMetadata =
            fold (\<lambda>config m. (case resolved config of
                                 Some obj \<Rightarrow> m(GetName config \<mapsto> obj)
                               | None \<Rightarrow> m))
                 (resolvedOrder it) Map.empty;
          authData' = authData(''metadata'' \<mapsto> MetadataMap resolvedMetadata)
      in \<lparr>Context = Attributes (GetRequest pipeline), AuthData = authData'\<rparr>)"

subsection \<open>Example runs of the pipeline\<close>

text \<open>
  Evaluators for concrete runs: identity config 0 and 1 fail, the others resolve a user;
  metadata config 1 fails, the others fetch an object; authorization config 1 allows, config 2
  denies with an error, and the others return the object \<open>false\<close> without an error.
\<close>

datatype exampleObject = UserInfo string | Allowed bool

fun exampleTruthy :: "exampleObject \<Rightarrow> bool" where
  "exampleTruthy (UserInfo u) = True"
| "exampleTruthy (Allowed b) = b"

fun exampleCall ::
  "AuthConfigEvaluator \<Rightarrow> (exampleObject, unit) AuthPipeline \<Rightarrow> bool \<Rightarrow>
     exampleObject option \<times> string option" where
  "exampleCall (IdentityConfig n) pipeline cancelled =
     (if n = 0 then (None, Some ''expired token'')
      else if n = 1 then (None, Some ''invalid api key'')
      else (Some (UserInfo ''alice''), None))"
| "exampleCall (MetadataConfig n) pipeline cancelled =
     (if n = 1 then (None, Some ''timeout'') else (Some (UserInfo ''groups''), None))"
| "exampleCall (AuthorizationConfig n) pipeline cancelled =
     (if n = 1 then (Some (Allowed True), None)
      else if n = 2 then (Some (Allowed False), Some ''Unauthorized'')
      else (Some (Allowed False), None))"

definition exampleEnv :: "event list \<Rightarrow> (exampleObject, string, unit) environment" where
  "exampleEnv schedule =
     \<lparr>Call = exampleCall, identitySchedule = schedule, metadataSchedule = schedule,
      authorizationSchedule = schedule\<rparr>"

definition examplePipeline ::
  "AuthConfigEvaluator list \<Rightarrow> AuthConfigEvaluator list \<Rightarrow> AuthConfigEvaluator list \<Rightarrow>
     (exampleObject, unit) AuthPipeline" where
  "examplePipeline ics mcs acs =
     NewAuthPipeline False \<lparr>Attributes = ()\<rparr>
       \<lparr>IdentityConfigs = ics, MetadataConfigs = mcs, AuthorizationConfigs = acs\<rparr>"

definition inOrder :: "event list" where
  "inOrder = [CheckContext 0, CheckContext 1, CheckContext 2,
              CallReturns 0, CallReturns 1, CallReturns 2]"

definition secondFirst :: "event list" where
  "secondFirst = [CheckContext 1, CallReturns 1]"

fun exampleName :: "nat option \<Rightarrow> string" where
  "exampleName None = ''nil''"
| "exampleName (Some n) = (if n = 5 then ''userinfo'' else if n = 6 then ''resource'' else ''other'')"

definition resolvedPipeline :: "(exampleObject, unit) AuthPipeline" where
  "resolvedPipeline =
     (examplePipeline [] [] [])
       \<lparr>Identity := [Some 1 \<mapsto> None, Some 2 \<mapsto> Some (UserInfo ''alice'')],
        Metadata := [Some 5 \<mapsto> Some (UserInfo ''groups''), Some 6 \<mapsto> None]\<rparr>"

definition resolvedIteration :: iteration where
  "resolvedIteration =
     \<lparr>identityOrder = [Some 1, Some 2], metadataOrder = [Some 6, Some 5], resolvedOrder = [Some 5]\<rparr>"

text \<open>
  A pipeline with two metadata configs of the same name, \<open>other\<close>, each with a non-nil object,
  and the two orders in which a loop can visit them.
\<close>

definition sameNamePipeline :: "(exampleObject, unit) AuthPipeline" where
  "sameNamePipeline =
     (examplePipeline [] [] [])
       \<lparr>Metadata := [Some 7 \<mapsto> Some (UserInfo ''first''), Some 8 \<mapsto> Some (UserInfo ''second'')]\<rparr>"

definition firstThenSecond :: iteration where
  "firstThenSecond =
     \<lparr>identityOrder = [], metadataOrder = [Some 7, Some 8], resolvedOrder = [Some 7, Some 8]\<rparr>"

definition secondThenFirst :: iteration where
  "secondThenFirst =
     \<lparr>identityOrder = [], metadataOrder = [Some 7, Some 8], resolvedOrder = [Some 8, Some 7]\<rparr>"

subsection \<open>What the runner can put on the channel\<close>

text \<open>
  A response on the channel of a phase comes from one of the evaluators of the phase, and when it
  is a success it carries the object that the evaluator's \<open>Call\<close> returned without an error.
\<close>

definition emitted ::
  "AuthConfigEvaluator list \<Rightarrow> (AuthConfigEvaluator \<Rightarrow> bool \<Rightarrow> 'o option \<times> 'e option) \<Rightarrow>
   ('o, 'e) EvaluationResponse \<Rightarrow> bool" where
  "emitted cfgs call r =
     (Evaluator r \<in> set cfgs \<and> (Success r \<longrightarrow> (\<exists>d. call (Evaluator r) d = (Object r, None))))"

section \<open>The credential locator (package auth\_credentials)\<close>

subsection \<open>The functions of package strings that the locator calls\<close>

text \<open>
  A Go string is a sequence of bytes, and so is a \<open>string\<close> here. \<open>Split\<close> is \<open>strings.Split\<close> for
  a separator of one byte, the only use the locator makes of it: the result is never empty.
\<close>

definition HasPrefix :: "string \<Rightarrow> string \<Rightarrow> bool" where
  "HasPrefix s pre = (length pre \<le> length s \<and> take (length pre) s = pre)"

definition TrimPrefix :: "string \<Rightarrow> string \<Rightarrow> string" where
  "TrimPrefix s pre = (if HasPrefix s pre then drop (length pre) s else s)"

fun Split :: "string \<Rightarrow> char \<Rightarrow> string list" where
  "Split [] sep = [[]]"
| "Split (c # s) sep =
     (if c = sep then [] # Split s sep
      else (case Split s sep of [] \<Rightarrow> [[c]] | x # xs \<Rightarrow> (c # x) # xs))"

text \<open>\<open>strings.Join\<close>, the inverse of \<open>Split\<close>.\<close>

fun Join :: "string list \<Rightarrow> string \<Rightarrow> string" where
  "Join [] sep = []"
| "Join [x] sep = x"
| "Join (x # y # zs) sep = x @ sep @ Join (y # zs) sep"

text \<open>
  \<open>strings.TrimSpace\<close> removes the leading and the trailing white space, as Unicode defines it
  (\<open>unicode.IsSpace\<close>), from a string read as UTF-8. \<open>unicodeSpace\<close> lists the UTF-8 encodings
  of the white space runes: the six ASCII ones, U+0085, U+00A0, U+1680, U+2000 to U+200A,
  U+2028, U+2029, U+202F, U+205F and U+3000. Each encoding has a single leading byte, so a
  string starts (ends) with a white space rune exactly when one of them is a prefix (suffix).
\<close>

definition unicodeSpace :: "string list" where
  "unicodeSpace =
     [[CHR 0x09], [CHR 0x0A], [CHR 0x0B], [CHR 0x0C], [CHR 0x0D], [CHR 0x20],
      [CHR 0xC2, CHR 0x85], [CHR 0xC2, CHR 0xA0], [CHR 0xE1, CHR 0x9A, CHR 0x80],
      [CHR 0xE2, CHR 0x80, CHR 0x80], [CHR 0xE2, CHR 0x80, CHR 0x81],
      [CHR 0xE2, CHR 0x80, CHR 0x82], [CHR 0xE2, CHR 0x80, CHR 0x83],
      [CHR 0xE2, CHR 0x80, CHR 0x84], [CHR 0xE2, CHR 0x80, CHR 0x85],
      [CHR 0xE2, CHR 0x80, CHR 0x86], [CHR 0xE2, CHR 0x80, CHR 0x87],
      [CHR 0xE2, CHR 0x80, CHR 0x88], [CHR 0xE2, CHR 0x80, CHR 0x89],
      [CHR 0xE2, CHR 0x80, CHR 0x8A], [CHR 0xE2, CHR 0x80, CHR 0xA8],
      [CHR 0xE2, CHR 0x80, CHR 0xA9], [CHR 0xE2, CHR 0x80, CHR 0xAF],
      [CHR 0xE2, CHR 0x81, CHR 0x9F], [CHR 0xE3, CHR 0x80, CHR 0x80]]"

fun runeWidth :: "string list \<Rightarrow> string \<Rightarrow> nat" where
  "runeWidth [] s = 0"
| "runeWidth (r # runes) s = (if prefix r s then length r else runeWidth runes s)"

function TrimLeftRunes :: "string list \<Rightarrow> string \<Rightarrow> string" where
  "TrimLeftRunes runes s =
     (if runeWidth runes s = 0 then s else TrimLeftRunes runes (drop (runeWidth runes s) s))"
  by pat_completeness auto
termination
proof (relation "measure (\<lambda>(runes, s). length s)")
  show "wf (measure (\<lambda>(runes, s). length s))" by simp
next
  fix runes :: "string list" and s :: string
  assume w: "runeWidth runes s \<noteq> 0"
  have "s \<noteq> []"
  proof
    assume "s = []"
    then have "runeWidth runes s = 0" by (induction runes) auto
    with w show False by simp
  qed
  with w show "((runes, drop (runeWidth runes s) s), (runes, s)) \<in> measure (\<lambda>(runes, s). length s)"
    by simp
qed

definition TrimSpace :: "string \<Rightarrow> string" where
  "TrimSpace s = rev (TrimLeftRunes (map rev unicodeSpace) (rev (TrimLeftRunes unicodeSpace s)))"

subsection \<open>The locator\<close>

text \<open>
  A function of the locator returns a string and an error. The outcome of a call is the string
  when the error is nil, the error (by its message) otherwise, or a run-time panic.
\<close>

datatype failure = Err string | Panic string

record AuthCredential =
  KeySelector :: string
  In :: string

text \<open>
  Of the request the locator reads the headers and the path, through getters that are safe on
  a nil pointer.
\<close>

record AttributeContext_HttpRequest =
  Headers :: "string \<rightharpoonup> string"
  Path :: string

definition inCustomHeader :: string where "inCustomHeader = ''custom_header''"
definition inAuthHeader :: string where "inAuthHeader = ''authorization_header''"
definition inCookieHeader :: string where "inCookieHeader = ''cookie''"
definition inQuery :: string where "inQuery = ''query''"
definition defaultKeySelector :: string where "defaultKeySelector = ''Bearer''"
definition credentialNotFoundMsg :: string where "credentialNotFoundMsg = ''credential not found''"
definition credentialLocationNotSupportedMsg :: string where
  "credentialLocationNotSupportedMsg = ''the credential location is not supported''"

definition notFoundErr :: failure where
  "notFoundErr = Err credentialNotFoundMsg"

definition NewAuthCredential :: "string \<Rightarrow> string \<Rightarrow> AuthCredential" where
  "NewAuthCredential selector location =
     \<lparr>KeySelector = (if selector = [] then defaultKeySelector else selector),
      In = (if location = [] then inAuthHeader else location)\<rparr>"

text \<open>
  \<open>strings.ToLower\<close> maps every letter of Unicode to its lower case; it is a parameter.
\<close>

definition getCredFromCustomHeader ::
  "(string \<Rightarrow> string) \<Rightarrow> (string \<rightharpoonup> string) \<Rightarrow> string \<Rightarrow> failure + string" where
  "getCredFromCustomHeader ToLower headers keyName =
     (case headers (ToLower keyName) of
        None \<Rightarrow> Inl notFoundErr
      | Some cred \<Rightarrow> Inr cred)"

definition getCredFromAuthHeader :: "(string \<rightharpoonup> string) \<Rightarrow> string \<Rightarrow> failure + string" where
  "getCredFromAuthHeader headers keyName =
     (case headers ''authorization'' of
        None \<Rightarrow> Inl notFoundErr
      | Some authHeader \<Rightarrow>
          (let pre = keyName @ '' '' in
           if HasPrefix authHeader pre then Inr (TrimPrefix authHeader pre)
           else Inl notFoundErr))"

text \<open>Indexing a slice panics when the index is out of range.\<close>

definition index :: "string list \<Rightarrow> nat \<Rightarrow> failure + string" where
  "index xs i =
     (if i < length xs then Inr (xs ! i) else Inl (Panic ''index out of range''))"

fun getFromCookieHeader_range :: "string list \<Rightarrow> string \<Rightarrow> failure + string" where
  "getFromCookieHeader_range [] keyName = Inl notFoundErr"
| "getFromCookieHeader_range (part # rest) keyName =
     (let keyAndValue = Split (TrimSpace part) (CHR ''='') in
      (case index keyAndValue 0 of
         Inl p \<Rightarrow> Inl p
       | Inr k \<Rightarrow>
           if k = keyName then index keyAndValue 1
           else getFromCookieHeader_range rest keyName))"

definition getFromCookieHeader :: "(string \<rightharpoonup> string) \<Rightarrow> string \<Rightarrow> failure + string" where
  "getFromCookieHeader headers keyName =
     (case headers ''cookie'' of
        None \<Rightarrow> Inl notFoundErr
      | Some header \<Rightarrow> getFromCookieHeader_range (Split header (CHR '';'')) keyName)"

text \<open>
  The words of the specification for a cookie: the key of a part is the text before its first
  \<open>=\<close>, its value everything after that \<open>=\<close>.
\<close>

definition beforeFirstEq :: "string \<Rightarrow> string" where
  "beforeFirstEq s = takeWhile (\<lambda>c. c \<noteq> CHR ''='') s"

definition afterFirstEq :: "string \<Rightarrow> string" where
  "afterFirstEq s = tl (dropWhile (\<lambda>c. c \<noteq> CHR ''='') s)"


subsection \<open>A fragment of package regexp\<close>

text \<open>
  \<open>getCredFromQuery\<close> compiles a regular expression that contains the key selector and searches
  the path with it. Package regexp is part of the Go library. The fragment of its syntax that is
  modelled here has literal ASCII characters, the dot, the escape \<^verbatim>\<open>\d\<close>, bracket expressions
  with ranges and without escapes, groups \<^verbatim>\<open>(...)\<close> and \<^verbatim>\<open>(?P<name>...)\<close>, and the greedy star
  and plus on an operand that is not a repetition and cannot match the empty string. The
  anchors \<^verbatim>\<open>^\<close> and \<^verbatim>\<open>$\<close> are read, so that a syntax error behind them is found, but an
  expression with an anchor is not matched. Outside of the fragment the model answers
  \<open>NotModelled\<close> and says nothing. A subject string is matched byte by byte, which agrees with
  matching rune by rune on ASCII strings; other subjects are not modelled.
\<close>

datatype 'a parsed = Parsed 'a | SyntaxError string | NotModelled

datatype regexp =
    OpLiteral char
  | OpAnyCharNotNL
  | OpCharClass bool "(char \<times> char) list"
  | OpBeginText
  | OpEndText
  | OpConcat "regexp list"
  | OpStar regexp
  | OpPlus regexp
  | OpCapture nat string regexp

datatype token =
    TChar char | TDot | TClass bool "(char \<times> char) list" | TStar | TPlus
  | TBeginText | TEndText | TOpen string | TClose

text \<open>
  The scanner reads the expression from left to right. Its mode records what it is in the middle
  of: an escape, an opening parenthesis and the \<^verbatim>\<open>?P<name>\<close> that may follow it, or a bracket
  expression (whether it is negated, whether no member was read so far, the ranges read so far in
  reverse order, and the character that may yet turn out to start a range).
\<close>

datatype lexmode =
    Normal
  | Escape
  | Paren
  | ParenQ
  | ParenQP
  | GroupName string
  | ClassOpen
  | InClass bool bool "(char \<times> char) list"
  | ClassLo bool "(char \<times> char) list" char
  | ClassDash bool "(char \<times> char) list" char

definition isASCII :: "char \<Rightarrow> bool" where
  "isASCII c = ((of_char c :: nat) < 128)"

definition isWordChar :: "char \<Rightarrow> bool" where
  "isWordChar c =
     (c \<in> set ''abcdefghijklmnopqrstuvwxyzABCDEFGHIJKLMNOPQRSTUVWXYZ0123456789_'')"

definition lexNormal :: "char \<Rightarrow> (lexmode \<times> token list) parsed" where
  "lexNormal c =
     (if c = CHR ''('' then Parsed (Paren, [])
      else if c = CHR '')'' then Parsed (Normal, [TClose])
      else if c = CHR ''['' then Parsed (ClassOpen, [])
      else if c = CHR ''*'' then Parsed (Normal, [TStar])
      else if c = CHR ''+'' then Parsed (Normal, [TPlus])
      else if c = CHR ''.'' then Parsed (Normal, [TDot])
      else if c = CHR ''^'' then Parsed (Normal, [TBeginText])
      else if c = CHR ''$'' then Parsed (Normal, [TEndText])
      else if c = CHR 0x5C then Parsed (Escape, [])
      else if c \<in> set [CHR ''?'', CHR ''|'', CHR ''{'', CHR ''}'', CHR '']''] \<or> \<not> isASCII c
      then NotModelled
      else Parsed (Normal, [TChar c]))"

definition lexClassChar ::
  "bool \<Rightarrow> bool \<Rightarrow> (char \<times> char) list \<Rightarrow> char \<Rightarrow> (lexmode \<times> token list) parsed" where
  "lexClassChar negated first ranges c =
     (if c = CHR '']'' \<and> \<not> first then Parsed (Normal, [TClass negated (rev ranges)])
      else if c = CHR 0x5C \<or> \<not> isASCII c then NotModelled
      else Parsed (ClassLo negated ranges c, []))"

fun lexStep :: "lexmode \<Rightarrow> char \<Rightarrow> (lexmode \<times> token list) parsed" where
  "lexStep Normal c = lexNormal c"
| "lexStep Escape c =
     (if c = CHR ''d'' then Parsed (Normal, [TClass False [(CHR ''0'', CHR ''9'')]])
      else NotModelled)"
| "lexStep Paren c =
     (if c = CHR ''?'' then Parsed (ParenQ, [])
      else (case lexNormal c of
              Parsed (mode, toks) \<Rightarrow> Parsed (mode, TOpen [] # toks)
            | SyntaxError msg \<Rightarrow> SyntaxError msg
            | NotModelled \<Rightarrow> NotModelled))"
| "lexStep ParenQ c = (if c = CHR ''P'' then Parsed (ParenQP, []) else NotModelled)"
| "lexStep ParenQP c = (if c = CHR ''<'' then Parsed (GroupName [], []) else NotModelled)"
| "lexStep (GroupName name) c =
     (if c = CHR ''>'' \<and> name \<noteq> [] then Parsed (Normal, [TOpen (rev name)])
      else if isWordChar c then Parsed (GroupName (c # name), [])
      else NotModelled)"
| "lexStep ClassOpen c =
     (if c = CHR ''^'' then Parsed (InClass True True [], [])
      else lexClassChar False True [] c)"
| "lexStep (InClass negated first ranges) c = lexClassChar negated first ranges c"
| "lexStep (ClassLo negated ranges lo) c =
     (if lo = CHR ''['' \<and> c = CHR '':'' then NotModelled
      else if c = CHR ''-'' then Parsed (ClassDash negated ranges lo, [])
      else lexClassChar negated False ((lo, lo) # ranges) c)"
| "lexStep (ClassDash negated ranges lo) c =
     (if c = CHR '']'' then
        Parsed (Normal, [TClass negated (rev ((CHR ''-'', CHR ''-'') # (lo, lo) # ranges))])
      else if c = CHR 0x5C \<or> \<not> isASCII c then NotModelled
      else if (of_char c :: nat) < of_char lo then SyntaxError ''invalid character class range''
      else Parsed (InClass negated False ((lo, c) # ranges), []))"

fun lexEnd :: "lexmode \<Rightarrow> token list parsed" where
  "lexEnd Normal = Parsed []"
| "lexEnd Escape = SyntaxError ''trailing backslash at end of expression''"
| "lexEnd Paren = Parsed [TOpen []]"
| "lexEnd ParenQ = NotModelled"
| "lexEnd ParenQP = NotModelled"
| "lexEnd (GroupName name) = NotModelled"
| "lexEnd ClassOpen = SyntaxError ''missing closing ]''"
| "lexEnd (InClass negated first ranges) = SyntaxError ''missing closing ]''"
| "lexEnd (ClassLo negated ranges lo) = SyntaxError ''missing closing ]''"
| "lexEnd (ClassDash negated ranges lo) = SyntaxError ''missing closing ]''"

fun lex :: "lexmode \<Rightarrow> string \<Rightarrow> token list parsed" where
  "lex mode [] = lexEnd mode"
| "lex mode (c # s) =
     (case lexStep mode c of
        Parsed (mode', toks) \<Rightarrow>
          (case lex mode' s of
             Parsed rest \<Rightarrow> Parsed (toks @ rest)
           | SyntaxError msg \<Rightarrow> SyntaxError msg
           | NotModelled \<Rightarrow> NotModelled)
      | SyntaxError msg \<Rightarrow> SyntaxError msg
      | NotModelled \<Rightarrow> NotModelled)"

text \<open>
  The parser keeps a stack of the groups that are open, the innermost first; the last frame is
  the top level. A frame holds the number and the name of its group and the operands read so far
  in it, in reverse order. \<open>repeatable\<close> says whether the model applies a star or a plus to an
  operand; \<open>anchored\<close> whether an expression has an anchor.
\<close>

fun nullable :: "regexp \<Rightarrow> bool" where
  "nullable (OpLiteral c) = False"
| "nullable OpAnyCharNotNL = False"
| "nullable (OpCharClass negated ranges) = False"
| "nullable OpBeginText = True"
| "nullable OpEndText = True"
| "nullable (OpConcat rs) = (\<forall>r\<in>set rs. nullable r)"
| "nullable (OpStar r) = True"
| "nullable (OpPlus r) = nullable r"
| "nullable (OpCapture i name r) = nullable r"

fun repeatable :: "regexp \<Rightarrow> bool" where
  "repeatable (OpStar r) = False"
| "repeatable (OpPlus r) = False"
| "repeatable r = (\<not> nullable r)"

fun anchored :: "regexp \<Rightarrow> bool" where
  "anchored OpBeginText = True"
| "anchored OpEndText = True"
| "anchored (OpConcat rs) = (\<exists>r\<in>set rs. anchored r)"
| "anchored (OpStar r) = anchored r"
| "anchored (OpPlus r) = anchored r"
| "anchored (OpCapture i name r) = anchored r"
| "anchored r = False"

record frame =
  group :: "nat \<times> string"
  operands :: "regexp list"

record parser =
  stack :: "frame list"
  numCap :: nat
  names :: "string list"

definition push :: "regexp \<Rightarrow> parser \<Rightarrow> parser parsed" where
  "push r p =
     (case stack p of
        [] \<Rightarrow> NotModelled
      | f # fs \<Rightarrow> Parsed (p\<lparr>stack := f\<lparr>operands := r # operands f\<rparr> # fs\<rparr>))"

definition repeat :: "(regexp \<Rightarrow> regexp) \<Rightarrow> parser \<Rightarrow> parser parsed" where
  "repeat op p =
     (case stack p of
        [] \<Rightarrow> NotModelled
      | f # fs \<Rightarrow>
          (case operands f of
             [] \<Rightarrow> SyntaxError ''missing argument to repetition operator''
           | r # rs \<Rightarrow>
               if repeatable r then Parsed (p\<lparr>stack := f\<lparr>operands := op r # rs\<rparr> # fs\<rparr>)
               else NotModelled))"

fun parseStep :: "parser \<Rightarrow> token \<Rightarrow> parser parsed" where
  "parseStep p (TChar c) = push (OpLiteral c) p"
| "parseStep p TDot = push OpAnyCharNotNL p"
| "parseStep p (TClass negated ranges) = push (OpCharClass negated ranges) p"
| "parseStep p TBeginText = push OpBeginText p"
| "parseStep p TEndText = push OpEndText p"
| "parseStep p TStar = repeat OpStar p"
| "parseStep p TPlus = repeat OpPlus p"
| "parseStep p (TOpen name) =
     (if name \<noteq> [] \<and> name \<in> set (names p) then NotModelled
      else Parsed (p\<lparr>stack := \<lparr>group = (Suc (numCap p), name), operands = []\<rparr> # stack p,
                     numCap := Suc (numCap p),
                     names := names p @ [name]\<rparr>))"
| "parseStep p TClose =
     (case stack p of
        f # g # fs \<Rightarrow>
          Parsed (p\<lparr>stack :=
                      g\<lparr>operands := OpCapture (fst (group f)) (snd (group f)) (OpConcat (rev (operands f)))
                                      # operands g\<rparr> # fs\<rparr>)
      | _ \<Rightarrow> SyntaxError ''unexpected )'')"

fun parseTokens :: "parser \<Rightarrow> token list \<Rightarrow> parser parsed" where
  "parseTokens p [] = Parsed p"
| "parseTokens p (t # ts) =
     (case parseStep p t of
        Parsed p' \<Rightarrow> parseTokens p' ts
      | SyntaxError msg \<Rightarrow> SyntaxError msg
      | NotModelled \<Rightarrow> NotModelled)"

text \<open>
  A compiled expression: the syntax tree, and the names of the groups by their number (number 0
  is the whole match and has the empty name).
\<close>

record Regexp =
  prog :: regexp
  subexpNames :: "string list"

definition Compile :: "string \<Rightarrow> Regexp parsed" where
  "Compile expr =
     (case lex Normal expr of
        SyntaxError msg \<Rightarrow> SyntaxError msg
      | NotModelled \<Rightarrow> NotModelled
      | Parsed toks \<Rightarrow>
          (case parseTokens \<lparr>stack = [\<lparr>group = (0, []), operands = []\<rparr>], numCap = 0, names = [[]]\<rparr>
                  toks of
             SyntaxError msg \<Rightarrow> SyntaxError msg
           | NotModelled \<Rightarrow> NotModelled
           | Parsed p \<Rightarrow>
               (case stack p of
                  [f] \<Rightarrow>
                    if anchored (OpConcat (rev (operands f))) then NotModelled
                    else Parsed \<lparr>prog = OpConcat (rev (operands f)), subexpNames = names p\<rparr>
                | _ \<Rightarrow> SyntaxError ''missing closing )'')))"

text \<open>
  Matching by backtracking: \<open>backtrack r s caps\<close> lists the ways in which \<open>r\<close> matches a prefix of
  \<open>s\<close>, each as the rest of \<open>s\<close> and the captures, in the order in which a backtracking search
  finds them. Package regexp returns the leftmost match, and among the leftmost matches the one
  that a backtracking search finds first. A negated bracket expression matches the newline, the
  dot does not. An anchor is never matched, since \<open>Compile\<close> gives no expression that has one.
\<close>

definition inRanges :: "(char \<times> char) list \<Rightarrow> char \<Rightarrow> bool" where
  "inRanges ranges x =
     list_ex (\<lambda>(lo, hi). (of_char lo :: nat) \<le> of_char x \<and> (of_char x :: nat) \<le> of_char hi) ranges"

function backtrack ::
  "regexp \<Rightarrow> string \<Rightarrow> (nat \<times> string) list \<Rightarrow> (string \<times> (nat \<times> string) list) list" where
  "backtrack (OpLiteral c) s caps =
     (case s of [] \<Rightarrow> [] | x # xs \<Rightarrow> if x = c then [(xs, caps)] else [])"
| "backtrack OpAnyCharNotNL s caps =
     (case s of [] \<Rightarrow> [] | x # xs \<Rightarrow> if x \<noteq> CHR 0x0A then [(xs, caps)] else [])"
| "backtrack (OpCharClass negated ranges) s caps =
     (case s of [] \<Rightarrow> [] | x # xs \<Rightarrow> if inRanges ranges x \<noteq> negated then [(xs, caps)] else [])"
| "backtrack OpBeginText s caps = []"
| "backtrack OpEndText s caps = []"
| "backtrack (OpConcat []) s caps = [(s, caps)]"
| "backtrack (OpConcat (r # rs)) s caps =
     concat (map (\<lambda>(s', caps'). backtrack (OpConcat rs) s' caps') (backtrack r s caps))"
| "backtrack (OpStar r) s caps =
     concat (map (\<lambda>(s', caps'). if length s' < length s then backtrack (OpStar r) s' caps' else [])
                 (backtrack r s caps))
     @ [(s, caps)]"
| "backtrack (OpPlus r) s caps =
     concat (map (\<lambda>(s', caps').
                    (if length s' < length s then backtrack (OpPlus r) s' caps' else [])
                    @ [(s', caps')])
                 (backtrack r s caps))"
| "backtrack (OpCapture i name r) s caps =
     map (\<lambda>(s', caps'). (s', (i, take (length s - length s') s) # caps')) (backtrack r s caps)"
  by pat_completeness auto
termination
  by (relation "inv_image (less_than <*lex*> less_than) (\<lambda>(r, s, caps). (size r, length s))") auto

fun submatches :: "Regexp \<Rightarrow> string \<Rightarrow> string list" where
  "submatches re s =
     (case backtrack (prog re) s [] of
        (rest, caps) # others \<Rightarrow>
          take (length s - length rest) s #
          map (\<lambda>i. (case map_of caps i of None \<Rightarrow> [] | Some v \<Rightarrow> v)) [1..<length (subexpNames re)]
      | [] \<Rightarrow> (case s of [] \<Rightarrow> [] | c # s' \<Rightarrow> submatches re s'))"

definition FindStringSubmatch :: "Regexp \<Rightarrow> string \<Rightarrow> string list option" where
  "FindStringSubmatch re s = (if list_all isASCII s then Some (submatches re s) else None)"

definition MatchString :: "Regexp \<Rightarrow> string \<Rightarrow> bool option" where
  "MatchString re s = map_option (\<lambda>matches. matches \<noteq> []) (FindStringSubmatch re s)"

fun firstIndex :: "string list \<Rightarrow> string \<Rightarrow> int \<Rightarrow> int" where
  "firstIndex [] name i = -1"
| "firstIndex (n # ns) name i = (if name = n then i else firstIndex ns name (i + 1))"

definition SubexpIndex :: "Regexp \<Rightarrow> string \<Rightarrow> int" where
  "SubexpIndex re name = (if name \<noteq> [] then firstIndex (subexpNames re) name 0 else -1)"

subsection \<open>Extraction from the query string, and the locator's entry point\<close>

text \<open>
  \<open>regexp.MustCompile\<close> panics when the expression does not parse (the message of the panic is
  abridged here, as is the one of an index out of range). The result \<open>None\<close> stands for an input
  outside of the modelled fragment of package regexp.
\<close>

definition indexInt :: "string list \<Rightarrow> int \<Rightarrow> failure + string" where
  "indexInt xs i =
     (if 0 \<le> i \<and> nat i < length xs then Inr (xs ! nat i) else Inl (Panic ''index out of range''))"

definition credValue :: string where "credValue = ''credValue''"

definition getCredFromQuery :: "string \<Rightarrow> string \<Rightarrow> (failure + string) option" where
  "getCredFromQuery path keyName =
     (case Compile (''([?&]'' @ keyName @ ''=)(?P<'' @ credValue @ ''>[^&]*)'') of
        SyntaxError msg \<Rightarrow> Some (Inl (Panic (''regexp: Compile: '' @ msg)))
      | NotModelled \<Rightarrow> None
      | Parsed regex \<Rightarrow>
          (case FindStringSubmatch regex path of
             None \<Rightarrow> None
           | Some matches \<Rightarrow>
               if length matches = 0 then Some (Inl notFoundErr)
               else Some (indexInt matches (SubexpIndex regex credValue))))"

definition GetCredentialsFromReq ::
  "(string \<Rightarrow> string) \<Rightarrow> AuthCredential \<Rightarrow> AttributeContext_HttpRequest \<Rightarrow>
     (failure + string) option" where
  "GetCredentialsFromReq ToLower c httpReq =
     (if In c = inCustomHeader then
        Some (getCredFromCustomHeader ToLower (Headers httpReq) (KeySelector c))
      else if In c = inAuthHeader then
        Some (getCredFromAuthHeader (Headers httpReq) (KeySelector c))
      else if In c = inCookieHeader then
        Some (getFromCookieHeader (Headers httpReq) (KeySelector c))
      else if In c = inQuery then getCredFromQuery (Path httpReq) (KeySelector c)
      else Some (Inl (Err credentialLocationNotSupportedMsg)))"

text \<open>
  The words of the specification for the query string, read literally: the first place where
  \<open>?\<close> or \<open>&\<close> is followed by the key selector and \<open>=\<close>; the value runs up to the next \<open>&\<close> or to
  the end.
\<close>

fun getCredFromQuery_literal :: "string \<Rightarrow> string \<Rightarrow> failure + string" where
  "getCredFromQuery_literal [] keyName = Inl notFoundErr"
| "getCredFromQuery_literal (c # path) keyName =
     (if (c = CHR ''?'' \<or> c = CHR ''&'') \<and> prefix (keyName @ ''='') path
      then Inr (takeWhile (\<lambda>x. x \<noteq> CHR ''&'') (drop (length keyName + 1) path))
      else getCredFromQuery_literal path keyName)"

text \<open>
  The key selectors that are free of the operators of a regular expression: ASCII characters
  other than the ones package regexp gives a meaning to outside of a character class.
\<close>

definition plain :: "char \<Rightarrow> bool" where
  "plain c = (isASCII c \<and> c \<notin> set [CHR ''('', CHR '')'', CHR ''['', CHR '']'', CHR ''*'', CHR ''+'',
       CHR ''.'', CHR ''^'', CHR ''$'', CHR 0x5C, CHR ''?'', CHR ''|'', CHR ''{'', CHR ''}''])"

text \<open>
  The expression that \<open>getCredFromQuery\<close> builds and compiles for such a key selector: a first
  group for \<open>?\<close> or \<open>&\<close>, the letters of the key and \<open>=\<close>, and the group \<open>credValue\<close> for the
  characters up to the next \<open>&\<close>.
\<close>

definition keyRegexp :: "string \<Rightarrow> Regexp" where
  "keyRegexp k =
     \<lparr>prog = OpConcat
        [OpCapture 1 [] (OpConcat (OpCharClass False [(CHR ''?'', CHR ''?''), (CHR ''&'', CHR ''&'')] #
                                   map OpLiteral k @ [OpLiteral (CHR ''='')])),
         OpCapture 2 ''credValue'' (OpConcat [OpStar (OpCharClass True [(CHR ''&'', CHR ''&'')])])],
      subexpNames = ['''', '''', ''credValue'']\<rparr>"

text \<open>The place in a path where the key is: after \<open>x\<close>, which is \<open>?\<close> or \<open>&\<close>, comes the key and \<open>=\<close>.\<close>

definition keyAt :: "string \<Rightarrow> char \<Rightarrow> string \<Rightarrow> bool" where
  "keyAt k x xs = ((x = CHR ''?'' \<or> x = CHR ''&'') \<and> prefix (k @ ''='') xs)"


section \<open>The pattern-matching evaluator (package authorization)\<close>

text \<open>
  Modelled from the spec: the dynamic value that the authorization JSON parses to. The sources
  hold the test of the evaluator \<open>JSONPatternMatching\<close> only; the evaluator itself and the selector
  engine (package json) are missing. The specification asks for a tagged variant: mapping,
  sequence, string, number, boolean or null. A number is kept as its text.
\<close>

datatype json =
    JNull
  | JBool bool
  | JNumber string
  | JString string
  | JSequence "json list"
  | JMapping "(string \<times> json) list"

text \<open>
  Modelled from the spec: the operator of a rule of the missing evaluator, one of \<open>eq\<close>, \<open>neq\<close>,
  \<open>incl\<close>, \<open>excl\<close> and \<open>matches\<close>.
\<close>

datatype operator = EqOp | NeqOp | InclOp | ExclOp | MatchesOp

text \<open>
  Modelled from the spec: the rule \<open>JSONPatternMatchingRule\<close> of the missing package json, a
  selector (a path with dots), an operator and a value.
\<close>

record JSONPatternMatchingRule =
  Selector :: string
  Operator :: operator
  Value :: string

text \<open>
  Modelled from the spec: one step of the missing selector engine. On a mapping the segment is the
  key; on a sequence a segment of digits is the index; anything else is missing (\<open>None\<close>).
\<close>

definition natOfDigits :: "string \<Rightarrow> nat" where
  "natOfDigits seg = foldl (\<lambda>n c. 10 * n + (of_char c - 48)) 0 seg"

fun descend :: "json \<Rightarrow> string \<Rightarrow> json option" where
  "descend (JMapping kvs) seg = map_of kvs seg"
| "descend (JSequence vs) seg =
     (if seg \<noteq> [] \<and> list_all (\<lambda>c. c \<in> set ''0123456789'') seg \<and> natOfDigits seg < length vs
      then Some (vs ! natOfDigits seg) else None)"
| "descend v seg = None"

text \<open>
  Modelled from the spec: the missing selector engine. It descends one segment of the path at a
  time; a path that is absent gives the missing value, never an error.
\<close>

definition select :: "string \<Rightarrow> json \<Rightarrow> json option" where
  "select path v =
     fold (\<lambda>seg cur. (case cur of None \<Rightarrow> None | Some x \<Rightarrow> descend x seg))
          (Split path (CHR ''.'')) (Some v)"

text \<open>
  Modelled from the spec: the string form of a resolved node in the missing evaluator, the
  natural JSON text of a scalar. A missing node, a sequence and a mapping have none.
\<close>

fun stringOf :: "json option \<Rightarrow> string option" where
  "stringOf (Some (JString s)) = Some s"
| "stringOf (Some (JNumber n)) = Some n"
| "stringOf (Some (JBool b)) = Some (if b then ''true'' else ''false'')"
| "stringOf (Some JNull) = Some ''null''"
| "stringOf v = None"

text \<open>
  Modelled from the spec: the part of package regexp that the missing evaluator calls. Package
  regexp is part of the Go library; the evaluator compiles the value of a \<open>matches\<close> rule and asks
  whether the compiled expression matches a string. The package is a parameter of the model: a
  function that gives, for an expression, the error of \<open>Compile\<close> or the \<open>MatchString\<close> of the
  compiled expression.
\<close>

type_synonym regexpPackage = "string \<Rightarrow> string + (string \<Rightarrow> bool)"

text \<open>
  Modelled from the spec: one rule of the missing evaluator, by the table of the operators. The
  result is whether the rule holds, or the error of a regular expression that does not compile,
  which is returned as it is.
\<close>

definition evaluateRule :: "regexpPackage \<Rightarrow> JSONPatternMatchingRule \<Rightarrow> json \<Rightarrow> string + bool" where
  "evaluateRule regexp rule authJSON =
     (let actual = select (Selector rule) authJSON in
      (case Operator rule of
         EqOp \<Rightarrow> Inr (stringOf actual = Some (Value rule))
       | NeqOp \<Rightarrow> Inr (stringOf actual \<noteq> Some (Value rule))
       | InclOp \<Rightarrow>
           Inr (case actual of
                  Some (JSequence vs) \<Rightarrow> list_ex (\<lambda>v. stringOf (Some v) = Some (Value rule)) vs
                | _ \<Rightarrow> False)
       | ExclOp \<Rightarrow>
           Inr (case actual of
                  Some (JSequence vs) \<Rightarrow> \<not> list_ex (\<lambda>v. stringOf (Some v) = Some (Value rule)) vs
                | _ \<Rightarrow> False)
       | MatchesOp \<Rightarrow>
           (case regexp (Value rule) of
              Inl err \<Rightarrow> Inl err
            | Inr matchString \<Rightarrow>
                Inr (case stringOf actual of
                       None \<Rightarrow> False
                     | Some s \<Rightarrow> matchString s))))"

text \<open>
  Modelled from the spec: \<open>Call\<close> of the missing evaluator \<open>JSONPatternMatching\<close>, on the rules and
  the parsed authorization JSON. It goes through the rules in their order: a regular expression
  that does not compile ends the call with its error, a rule that does not hold ends it with
  \<open>Unauthorized\<close>, and when every rule holds the call returns \<open>true\<close> and no error.
\<close>

fun JSONPatternMatching_Call ::
  "regexpPackage \<Rightarrow> JSONPatternMatchingRule list \<Rightarrow> json \<Rightarrow> bool \<times> string option" where
  "JSONPatternMatching_Call regexp [] authJSON = (True, None)"
| "JSONPatternMatching_Call regexp (rule # rules) authJSON =
     (case evaluateRule regexp rule authJSON of
        Inl err \<Rightarrow> (False, Some err)
      | Inr authorized \<Rightarrow>
          if authorized then JSONPatternMatching_Call regexp rules authJSON
          else (False, Some ''Unauthorized''))"

text \<open>
  Modelled from the spec: the words of the specification for a rule that holds, read as a predicate: \<open>eq\<close> and \<open>neq\<close>
  compare the string form of the resolved value with the value of the rule; \<open>incl\<close> asks for a
  sequence with an element whose string form is the value, \<open>excl\<close> for a sequence with no such
  element; \<open>matches\<close> asks that the value compiles and that the compiled expression matches the
  string form of the resolved value.
\<close>

definition ruleHolds :: "regexpPackage \<Rightarrow> JSONPatternMatchingRule \<Rightarrow> json \<Rightarrow> bool" where
  "ruleHolds regexp rule authJSON =
     (case Operator rule of
        EqOp \<Rightarrow> stringOf (select (Selector rule) authJSON) = Some (Value rule)
      | NeqOp \<Rightarrow> stringOf (select (Selector rule) authJSON) \<noteq> Some (Value rule)
      | InclOp \<Rightarrow>
          (case select (Selector rule) authJSON of
             Some (JSequence vs) \<Rightarrow> (\<exists>v\<in>set vs. stringOf (Some v) = Some (Value rule))
           | _ \<Rightarrow> False)
      | ExclOp \<Rightarrow>
          (case select (Selector rule) authJSON of
             Some (JSequence vs) \<Rightarrow> (\<forall>v\<in>set vs. stringOf (Some v) \<noteq> Some (Value rule))
           | _ \<Rightarrow> False)
      | MatchesOp \<Rightarrow>
          (case (regexp (Value rule), stringOf (select (Selector rule) authJSON)) of
             (Inr matchString, Some s) \<Rightarrow> matchString s
           | _ \<Rightarrow> False))"

text \<open>
  A regular expression package for the examples: the model of the fragment of package regexp of
  the section on the credential locator. The error of an expression that does not parse begins
  with the words and the code of the error of package regexp, which appends the piece of the
  expression at fault. On an expression or a subject outside of the fragment the answer is a
  placeholder; the examples stay inside of the fragment.
\<close>

definition fragmentRegexp :: regexpPackage where
  "fragmentRegexp expr =
     (case Compile expr of
        SyntaxError msg \<Rightarrow> Inl (''error parsing regexp: '' @ msg)
      | Parsed re \<Rightarrow> Inr (\<lambda>s. MatchString re s = Some True)
      | NotModelled \<Rightarrow> Inl ''outside of the modelled fragment'')"

text \<open>The authorization JSON of the test \<open>TestCall\<close>.\<close>

definition testAuthJSON :: json where
  "testAuthJSON =
     JMapping
       [(''context'',
           JMapping [(''request'',
             JMapping [(''http'',
               JMapping [(''headers'',
                 JMapping [(''x-secret-header'', JString ''no-one-knows''),
                           (''x-origin'', JString ''some-origin'')])])])]),
        (''auth'',
           JMapping [(''identity'', JString ''some-user-data''),
                     (''metadata'',
                        JMapping [(''letters'',
                          JSequence [JString ''a'', JString ''b'', JString ''c''])])])]"

definition secretHeader :: string where
  "secretHeader = ''context.request.http.headers.x-secret-header''"

definition letters :: string where
  "letters = ''auth.metadata.letters''"


text \<open>
  Rule lists and rules of the test: five rules that hold, the five with two violated, an
  expression that does not compile, one that matches the secret header and one that does not.
\<close>

definition allSatisfied :: "JSONPatternMatchingRule list" where
  "allSatisfied =
     [\<lparr>Selector = secretHeader, Operator = EqOp, Value = ''no-one-knows''\<rparr>,
      \<lparr>Selector = secretHeader, Operator = NeqOp, Value = ''other-expected''\<rparr>,
      \<lparr>Selector = letters, Operator = InclOp, Value = ''a''\<rparr>,
      \<lparr>Selector = letters, Operator = InclOp, Value = ''c''\<rparr>,
      \<lparr>Selector = letters, Operator = ExclOp, Value = ''d''\<rparr>]"

definition oneUnauthorized :: "JSONPatternMatchingRule list" where
  "oneUnauthorized =
     [\<lparr>Selector = secretHeader, Operator = EqOp, Value = ''no-one-knows''\<rparr>,
      \<lparr>Selector = secretHeader, Operator = NeqOp, Value = ''no-one-knows''\<rparr>,
      \<lparr>Selector = letters, Operator = InclOp, Value = ''xxxxx''\<rparr>,
      \<lparr>Selector = letters, Operator = InclOp, Value = ''c''\<rparr>,
      \<lparr>Selector = letters, Operator = ExclOp, Value = ''d''\<rparr>]"

definition invalidRegex :: JSONPatternMatchingRule where
  "invalidRegex = \<lparr>Selector = secretHeader, Operator = MatchesOp, Value = ''$$^[not-a-regex''\<rparr>"

definition matchesKnows :: JSONPatternMatchingRule where
  "matchesKnows = \<lparr>Selector = secretHeader, Operator = MatchesOp, Value = ''(.+)-knows''\<rparr>"

definition matchesDigits :: JSONPatternMatchingRule where
  "matchesDigits = \<lparr>Selector = secretHeader, Operator = MatchesOp, Value = ''('' @ [CHR 0x5C] @ ''d)+''\<rparr>"


section \<open>Verification of the pipeline\<close>

lemma foldl_step_idle:
  "waiting st = [] \<Longrightarrow> calling st = [] \<Longrightarrow>
   respChannel (foldl (step cfgs call es) st evs) = respChannel st \<and>
   waiting (foldl (step cfgs call es) st evs) = [] \<and>
   calling (foldl (step cfgs call es) st evs) = []"
proof (induction evs arbitrary: st)
  case Nil
  then show ?case by simp
next
  case (Cons ev evs)
  have "waiting (step cfgs call es st ev) = [] \<and> calling (step cfgs call es st ev) = []
        \<and> respChannel (step cfgs call es st ev) = respChannel st"
    using Cons.prems by (cases ev) auto
  then show ?case using Cons.IH [of "step cfgs call es st ev"] by simp
qed

lemma evaluateAuthConfigs_Nil: "evaluateAuthConfigs [] parentCtx call schedule es = []"
  using foldl_step_idle [of "\<lparr>ctx_done = parentCtx, waiting = [], calling = [], respChannel = []\<rparr>" "[]" call es schedule]
  by (simp add: evaluateAuthConfigs_def Let_def drain_def)

lemma identityChannel_Nil: "IdentityConfigs (API p) = [] \<Longrightarrow> identityChannel env p = []"
  by (simp add: identityChannel_def evaluateOneAuthConfig_def evaluateAuthConfigs_Nil)

lemma metadataChannel_Nil: "MetadataConfigs (API p) = [] \<Longrightarrow> metadataChannel env p = []"
  by (simp add: metadataChannel_def evaluateAnyAuthConfig_def evaluateAuthConfigs_Nil)

lemma authorizationChannel_Nil:
  "AuthorizationConfigs (API p) = [] \<Longrightarrow> authorizationChannel env p = []"
  by (simp add: authorizationChannel_def evaluateAllAuthConfigs_def evaluateAuthConfigs_Nil)

lemma identity_range_keeps:
  "evaluateIdentityConfigs_range rs le p = (err, p', u) \<Longrightarrow>
   API p' = API p \<and> Metadata p' = Metadata p \<and> Authorization p' = Authorization p \<and>
   ParentContext p' = ParentContext p \<and> Request p' = Request p"
  by (induction rs arbitrary: le) (auto split: if_splits)

lemma metadata_range_keeps:
  "API (evaluateMetadataConfigs_range rs p) = API p \<and>
   Identity (evaluateMetadataConfigs_range rs p) = Identity p \<and>
   Authorization (evaluateMetadataConfigs_range rs p) = Authorization p \<and>
   ParentContext (evaluateMetadataConfigs_range rs p) = ParentContext p \<and>
   Request (evaluateMetadataConfigs_range rs p) = Request p"
  by (induction rs arbitrary: p) auto

lemma authorization_range_keeps:
  "evaluateAuthorizationConfigs_range rs p = (err, p', u) \<Longrightarrow>
   API p' = API p \<and> Identity p' = Identity p \<and> Metadata p' = Metadata p \<and>
   ParentContext p' = ParentContext p \<and> Request p' = Request p"
  by (induction rs arbitrary: p) (auto split: if_splits)

lemma evaluateIdentityConfigs_keeps:
  "evaluateIdentityConfigs env p = (err, p') \<Longrightarrow>
   API p' = API p \<and> Metadata p' = Metadata p \<and> Authorization p' = Authorization p \<and>
   ParentContext p' = ParentContext p \<and> Request p' = Request p"
  unfolding evaluateIdentityConfigs_def
  by (auto split: prod.splits dest: identity_range_keeps)

lemma evaluateMetadataConfigs_keeps:
  "API (evaluateMetadataConfigs env p) = API p \<and>
   Identity (evaluateMetadataConfigs env p) = Identity p \<and>
   Authorization (evaluateMetadataConfigs env p) = Authorization p \<and>
   ParentContext (evaluateMetadataConfigs env p) = ParentContext p \<and>
   Request (evaluateMetadataConfigs env p) = Request p"
  unfolding evaluateMetadataConfigs_def by (rule metadata_range_keeps)

lemma evaluateAuthorizationConfigs_keeps:
  "evaluateAuthorizationConfigs env p = (err, p') \<Longrightarrow>
   API p' = API p \<and> Identity p' = Identity p \<and> Metadata p' = Metadata p \<and>
   ParentContext p' = ParentContext p \<and> Request p' = Request p"
  unfolding evaluateAuthorizationConfigs_def
  by (auto split: prod.splits dest: authorization_range_keeps)

text \<open>
  Claim C1, amended (empty-list laws). With an empty list of identity configs the identity phase
  receives no response and returns no error, leaving the pipeline as it is: the code has no
  ``no identity'' error. With an empty list of metadata configs the metadata phase changes
  nothing. With an empty list of authorization configs the authorization phase returns no
  error; so when the identity phase returns no error, \<open>Evaluate\<close> returns no error.
\<close>

theorem empty_list_laws:
  "(IdentityConfigs (API p) = [] \<longrightarrow> evaluateIdentityConfigs env p = (None, p)) \<and>
   (MetadataConfigs (API p) = [] \<longrightarrow> evaluateMetadataConfigs env p = p) \<and>
   (AuthorizationConfigs (API p) = [] \<longrightarrow> evaluateAuthorizationConfigs env p = (None, p)) \<and>
   (AuthorizationConfigs (API p) = [] \<and> fst (evaluateIdentityConfigs env p) = None \<longrightarrow>
      fst (Evaluate env p) = None)"
proof (intro conjI impI)
  assume "IdentityConfigs (API p) = []"
  then show "evaluateIdentityConfigs env p = (None, p)"
    by (simp add: evaluateIdentityConfigs_def identityChannel_Nil)
next
  assume "MetadataConfigs (API p) = []"
  then show "evaluateMetadataConfigs env p = p"
    by (simp add: evaluateMetadataConfigs_def metadataChannel_Nil)
next
  assume "AuthorizationConfigs (API p) = []"
  then show "evaluateAuthorizationConfigs env p = (None, p)"
    by (simp add: evaluateAuthorizationConfigs_def authorizationChannel_Nil)
next
  assume a: "AuthorizationConfigs (API p) = [] \<and> fst (evaluateIdentityConfigs env p) = None"
  obtain p1 where p1: "evaluateIdentityConfigs env p = (None, p1)"
    using a by (cases "evaluateIdentityConfigs env p") auto
  define p2 where "p2 = evaluateMetadataConfigs env p1"
  have "API p2 = API p"
    using evaluateIdentityConfigs_keeps [OF p1] evaluateMetadataConfigs_keeps [of env p1]
    by (simp add: p2_def)
  then have "authorizationChannel env p2 = []"
    using a by (simp add: authorizationChannel_Nil)
  then have "evaluateAuthorizationConfigs env p2 = (None, p2)"
    by (simp add: evaluateAuthorizationConfigs_def)
  then show "fst (Evaluate env p) = None"
    by (simp add: Evaluate_def p1 p2_def Let_def)
qed


lemma not_Success_Error: "\<not> Success r \<Longrightarrow> \<exists>e. Error r = Some e"
  by (simp add: Success_def)

lemma identity_range_first_success:
  "(\<forall>q\<in>set pre. \<not> Success q) \<Longrightarrow> Success r \<Longrightarrow>
   evaluateIdentityConfigs_range (pre @ r # post) le p =
     (None, p\<lparr>Identity := (Identity p)(asIdentityConfig (Evaluator r) \<mapsto> Object r)\<rparr>, post)"
  by (induction pre arbitrary: le) auto

lemma identity_range_all_failures:
  "(\<forall>q\<in>set rs. \<not> Success q) \<Longrightarrow>
   evaluateIdentityConfigs_range rs le p = (if rs = [] then le else Error (last rs), p, [])"
  by (induction rs arbitrary: le) auto

lemma identity_range_None:
  assumes "evaluateIdentityConfigs_range rs None p = (None, p', u)"
  shows "(rs = [] \<and> p' = p) \<or>
         (\<exists>pre r. rs = pre @ r # u \<and> (\<forall>q\<in>set pre. \<not> Success q) \<and> Success r \<and>
            p' = p\<lparr>Identity := (Identity p)(asIdentityConfig (Evaluator r) \<mapsto> Object r)\<rparr>)"
proof (cases "\<exists>r\<in>set rs. Success r")
  case True
  then obtain pre r post where s: "rs = pre @ r # post" "Success r" "\<forall>q\<in>set pre. \<not> Success q"
    using split_list_first_prop [of rs Success] by blast
  have "evaluateIdentityConfigs_range rs None p =
     (None, p\<lparr>Identity := (Identity p)(asIdentityConfig (Evaluator r) \<mapsto> Object r)\<rparr>, post)"
    using s identity_range_first_success [of pre r post None p] by simp
  with assms s show ?thesis by auto
next
  case False
  then have f: "\<forall>q\<in>set rs. \<not> Success q" by blast
  show ?thesis
  proof (cases "rs = []")
    case True
    with assms show ?thesis by simp
  next
    case False
    then have "last rs \<in> set rs" by simp
    then have "\<exists>e. Error (last rs) = Some e" using f not_Success_Error by blast
    then show ?thesis using assms identity_range_all_failures [OF f, of None p] False by auto
  qed
qed

lemma identity_range_Some:
  "evaluateIdentityConfigs_range rs le p = (Some e, p', u) \<Longrightarrow>
   le = Some e \<or> (\<exists>r\<in>set rs. Error r = Some e)"
  by (induction rs arbitrary: le) (auto split: if_splits)

lemma metadata_range_Metadata:
  "Metadata (evaluateMetadataConfigs_range rs p) =
   Metadata p ++ map_of (rev (map (\<lambda>r. (asMetadataConfig (Evaluator r), Object r)) (filter Success rs)))"
proof (induction rs arbitrary: p)
  case Nil
  then show ?case by simp
next
  case (Cons r rs)
  show ?case
  proof (cases "Success r")
    case True
    then show ?thesis
      using Cons.IH [of "p\<lparr>Metadata := (Metadata p)(asMetadataConfig (Evaluator r) \<mapsto> Object r)\<rparr>"]
      by (auto simp add: fun_eq_iff map_add_def split: option.splits)
  next
    case False
    then show ?thesis using Cons.IH [of p] by simp
  qed
qed

lemma authorization_range_None:
  "evaluateAuthorizationConfigs_range rs p = (None, p', u) \<Longrightarrow>
   u = [] \<and> (\<forall>r\<in>set rs. Success r) \<and>
   (\<forall>k obj. Authorization p' k = Some obj \<longrightarrow>
      Authorization p k = Some obj \<or>
      (\<exists>r\<in>set rs. asAuthorizationConfig (Evaluator r) = k \<and> Object r = obj))"
proof (induction rs arbitrary: p)
  case Nil
  then show ?case by simp
next
  case (Cons r rs)
  show ?case
  proof (cases "Success r")
    case True
    let ?q = "p\<lparr>Authorization := (Authorization p)(asAuthorizationConfig (Evaluator r) \<mapsto> Object r)\<rparr>"
    have "evaluateAuthorizationConfigs_range rs ?q = (None, p', u)"
      using Cons.prems True by simp
    from Cons.IH [OF this] True show ?thesis by (auto split: if_splits)
  next
    case False
    then show ?thesis using Cons.prems not_Success_Error [of r] by auto
  qed
qed

lemma authorization_range_Some:
  "evaluateAuthorizationConfigs_range rs p = (Some e, p', u) \<Longrightarrow> \<exists>r\<in>set rs. Error r = Some e"
  by (induction rs arbitrary: p) (auto split: if_splits)

lemma evaluateAuthConfig_emitted:
  assumes "c \<in> set cfgs" "evaluateAuthConfig c False (call c d) sc fc = (out, cancel)"
  shows "\<forall>r\<in>set out. emitted cfgs call r"
proof (cases "call c d")
  case (Pair obj err)
  show ?thesis
  proof (cases err)
    case None
    then have "out = [newEvaluationResponse c obj None]"
      using assms(2) Pair by (simp add: evaluateAuthConfig_def)
    then show ?thesis
      using assms(1) Pair None by (auto simp: emitted_def newEvaluationResponse_def)
  next
    case (Some e)
    then have "out = [newEvaluationResponse c None (Some e)]"
      using assms(2) Pair by (simp add: evaluateAuthConfig_def)
    then show ?thesis
      using assms(1) by (simp add: emitted_def newEvaluationResponse_def Success_def)
  qed
qed

lemma step_emitted:
  assumes "set (waiting st) \<subseteq> {..<length cfgs}" "set (calling st) \<subseteq> {..<length cfgs}"
    "\<forall>r\<in>set (respChannel st). emitted cfgs call r"
  shows "set (waiting (step cfgs call (\<lambda>conf ctx_err res. evaluateAuthConfig conf ctx_err res sc fc) st ev)) \<subseteq> {..<length cfgs} \<and>
         set (calling (step cfgs call (\<lambda>conf ctx_err res. evaluateAuthConfig conf ctx_err res sc fc) st ev)) \<subseteq> {..<length cfgs} \<and>
         (\<forall>r\<in>set (respChannel (step cfgs call (\<lambda>conf ctx_err res. evaluateAuthConfig conf ctx_err res sc fc) st ev)). emitted cfgs call r)"
proof (cases ev)
  case (CheckContext i)
  then show ?thesis using assms by auto
next
  case (CallReturns i)
  show ?thesis
  proof (cases "i \<in> set (calling st)")
    case True
    then have i: "i < length cfgs" using assms(2) by auto
    obtain out cancel where oc:
      "evaluateAuthConfig (cfgs ! i) False (call (cfgs ! i) (ctx_done st)) sc fc = (out, cancel)"
      by (cases "evaluateAuthConfig (cfgs ! i) False (call (cfgs ! i) (ctx_done st)) sc fc") auto
    have "\<forall>r\<in>set out. emitted cfgs call r"
      using evaluateAuthConfig_emitted [of "cfgs ! i" cfgs call "ctx_done st" sc fc out cancel] oc i
      by simp
    then show ?thesis using assms CallReturns True oc by auto
  next
    case False
    then show ?thesis using assms CallReturns by simp
  qed
next
  case ParentCancelled
  then show ?thesis using assms by simp
qed

lemma foldl_step_emitted:
  "set (waiting st) \<subseteq> {..<length cfgs} \<Longrightarrow> set (calling st) \<subseteq> {..<length cfgs} \<Longrightarrow>
   \<forall>r\<in>set (respChannel st). emitted cfgs call r \<Longrightarrow>
   set (waiting (foldl (step cfgs call (\<lambda>conf ctx_err res. evaluateAuthConfig conf ctx_err res sc fc)) st evs)) \<subseteq> {..<length cfgs} \<and>
   set (calling (foldl (step cfgs call (\<lambda>conf ctx_err res. evaluateAuthConfig conf ctx_err res sc fc)) st evs)) \<subseteq> {..<length cfgs} \<and>
   (\<forall>r\<in>set (respChannel (foldl (step cfgs call (\<lambda>conf ctx_err res. evaluateAuthConfig conf ctx_err res sc fc)) st evs)). emitted cfgs call r)"
proof (induction evs arbitrary: st)
  case Nil
  then show ?case by simp
next
  case (Cons ev evs)
  have "set (waiting (step cfgs call (\<lambda>conf ctx_err res. evaluateAuthConfig conf ctx_err res sc fc) st ev)) \<subseteq> {..<length cfgs} \<and>
         set (calling (step cfgs call (\<lambda>conf ctx_err res. evaluateAuthConfig conf ctx_err res sc fc) st ev)) \<subseteq> {..<length cfgs} \<and>
         (\<forall>r\<in>set (respChannel (step cfgs call (\<lambda>conf ctx_err res. evaluateAuthConfig conf ctx_err res sc fc) st ev)). emitted cfgs call r)"
    by (rule step_emitted) (use Cons.prems in auto)
  then show ?case using Cons.IH [of "step cfgs call (\<lambda>conf ctx_err res. evaluateAuthConfig conf ctx_err res sc fc) st ev"]
    by simp
qed

lemma evaluateAuthConfigs_emitted:
  "r \<in> set (evaluateAuthConfigs cfgs parentCtx call schedule
       (\<lambda>conf ctx_err res. evaluateAuthConfig conf ctx_err res sc fc)) \<Longrightarrow> emitted cfgs call r"
proof -
  let ?es = "\<lambda>conf ctx_err res. evaluateAuthConfig conf ctx_err res sc fc"
  let ?st0 = "\<lparr>ctx_done = parentCtx, waiting = [0..<length cfgs], calling = [], respChannel = []\<rparr>"
  let ?st1 = "foldl (step cfgs call ?es) ?st0 schedule"
  assume a: "r \<in> set (evaluateAuthConfigs cfgs parentCtx call schedule ?es)"
  have 1: "set (waiting ?st1) \<subseteq> {..<length cfgs} \<and> set (calling ?st1) \<subseteq> {..<length cfgs} \<and>
        (\<forall>r\<in>set (respChannel ?st1). emitted cfgs call r)"
    by (rule foldl_step_emitted) auto
  have "\<forall>r\<in>set (respChannel (foldl (step cfgs call ?es) ?st1 (drain ?st1))). emitted cfgs call r"
    using foldl_step_emitted [of ?st1 cfgs call sc fc "drain ?st1"] 1 by blast
  then show ?thesis using a by (simp add: evaluateAuthConfigs_def Let_def)
qed

lemma identityChannel_emitted:
  "r \<in> set (identityChannel env p) \<Longrightarrow>
   emitted (IdentityConfigs (API p)) (\<lambda>config. Call env config p) r"
  unfolding identityChannel_def evaluateOneAuthConfig_def by (rule evaluateAuthConfigs_emitted)

lemma authorizationChannel_emitted:
  "r \<in> set (authorizationChannel env p) \<Longrightarrow>
   emitted (AuthorizationConfigs (API p)) (\<lambda>config. Call env config p) r"
  unfolding authorizationChannel_def evaluateAllAuthConfigs_def by (rule evaluateAuthConfigs_emitted)

lemma Evaluate_None:
  assumes "Evaluate env p = (None, p')"
  shows "\<exists>p1. evaluateIdentityConfigs env p = (None, p1) \<and>
              evaluateAuthorizationConfigs env (evaluateMetadataConfigs env p1) = (None, p')"
proof -
  obtain e1 p1 where i: "evaluateIdentityConfigs env p = (e1, p1)"
    by (cases "evaluateIdentityConfigs env p") auto
  obtain e3 p3 where a: "evaluateAuthorizationConfigs env (evaluateMetadataConfigs env p1) = (e3, p3)"
    by (cases "evaluateAuthorizationConfigs env (evaluateMetadataConfigs env p1)") auto
  show ?thesis using assms i a
    by (cases e1; cases e3) (simp_all add: Evaluate_def Let_def)
qed

text \<open>
  Claim C2, amended (post-success invariant). Take a run of \<open>Evaluate\<close> that starts from a
  pipeline made by \<open>NewAuthPipeline\<close>, receives at least one response in the identity phase and
  returns no error. The identity map has exactly one entry, the pair of a successful response of
  the identity phase; if the identity evaluators return a non-nil object whenever they return no
  error, it is the one non-nil entry. Every entry of the authorization map is an object that an
  authorization evaluator of the API returned without an error, under the key of that evaluator;
  if the authorization evaluators return a non-nil, truthy object whenever they return no error,
  every entry is non-nil and truthy. The pipeline itself checks neither.
\<close>

theorem post_success_invariant:
  fixes env :: "('o, 'e, 'a) environment"
  assumes ev: "Evaluate env (NewAuthPipeline parentCtx req apiConfig) = (None, p')"
    and nonempty: "identityChannel env (NewAuthPipeline parentCtx req apiConfig) \<noteq> []"
  shows "(\<exists>r\<in>set (identityChannel env (NewAuthPipeline parentCtx req apiConfig)).
            Success r \<and> Identity p' = [asIdentityConfig (Evaluator r) \<mapsto> Object r]) \<and>
         ((\<forall>config\<in>set (IdentityConfigs apiConfig). \<forall>pl d obj.
              Call env config pl d = (obj, None) \<longrightarrow> obj \<noteq> None) \<longrightarrow>
          (\<exists>!k. \<exists>v. Identity p' k = Some (Some v))) \<and>
         (\<forall>k obj. Authorization p' k = Some obj \<longrightarrow>
            (\<exists>config\<in>set (AuthorizationConfigs apiConfig). \<exists>pl d.
                asAuthorizationConfig config = k \<and> Call env config pl d = (obj, None))) \<and>
         ((\<forall>config\<in>set (AuthorizationConfigs apiConfig). \<forall>pl d obj.
              Call env config pl d = (obj, None) \<longrightarrow> (\<exists>v. obj = Some v \<and> truthy v)) \<longrightarrow>
          (\<forall>k obj. Authorization p' k = Some obj \<longrightarrow> (\<exists>v. obj = Some v \<and> truthy v)))"
proof -
  let ?p0 = "NewAuthPipeline parentCtx req apiConfig :: ('o, 'a) AuthPipeline"
  obtain p1 where i: "evaluateIdentityConfigs env ?p0 = (None, p1)"
    and a: "evaluateAuthorizationConfigs env (evaluateMetadataConfigs env p1) = (None, p')"
    using Evaluate_None [OF ev] by blast
  let ?p2 = "evaluateMetadataConfigs env p1"
  have k1: "API p1 = apiConfig" "Authorization p1 = Map.empty"
    using evaluateIdentityConfigs_keeps [OF i] by (simp_all add: NewAuthPipeline_def)
  have k2: "API ?p2 = apiConfig" "Authorization ?p2 = Map.empty" "Identity ?p2 = Identity p1"
    using evaluateMetadataConfigs_keeps [of env p1] k1 by simp_all
  have k3: "Identity p' = Identity p1"
    using evaluateAuthorizationConfigs_keeps [OF a] k2 by simp
  \<comment> \<open>identity\<close>
  obtain u where "evaluateIdentityConfigs_range (identityChannel env ?p0) None ?p0 = (None, p1, u)"
    using i by (auto simp: evaluateIdentityConfigs_def split: prod.splits)
  from identity_range_None [OF this] nonempty
  obtain pre r where r: "identityChannel env ?p0 = pre @ r # u" "Success r"
    "p1 = ?p0\<lparr>Identity := (Identity ?p0)(asIdentityConfig (Evaluator r) \<mapsto> Object r)\<rparr>"
    by blast
  have rin: "r \<in> set (identityChannel env ?p0)" using r(1) by simp
  have id: "Identity p' = [asIdentityConfig (Evaluator r) \<mapsto> Object r]"
    using k3 r(3) by (simp add: NewAuthPipeline_def)
  have c1: "\<exists>r\<in>set (identityChannel env ?p0).
            Success r \<and> Identity p' = [asIdentityConfig (Evaluator r) \<mapsto> Object r]"
    using rin r(2) id by blast
  have c2: "(\<forall>config\<in>set (IdentityConfigs apiConfig). \<forall>pl d obj.
              Call env config pl d = (obj, None) \<longrightarrow> obj \<noteq> None) \<longrightarrow>
          (\<exists>!k. \<exists>v. Identity p' k = Some (Some v))"
  proof
    assume Hid: "\<forall>config\<in>set (IdentityConfigs apiConfig). \<forall>pl d obj.
              Call env config pl d = (obj, None) \<longrightarrow> obj \<noteq> None"
    have "emitted (IdentityConfigs (API ?p0)) (\<lambda>config. Call env config ?p0) r"
      using rin by (rule identityChannel_emitted)
    then have "Evaluator r \<in> set (IdentityConfigs apiConfig)"
      "\<exists>d. Call env (Evaluator r) ?p0 d = (Object r, None)"
      using r(2) by (simp_all add: emitted_def NewAuthPipeline_def)
    then have "Object r \<noteq> None" using Hid by blast
    then obtain v where v: "Object r = Some v" by auto
    show "\<exists>!k. \<exists>v. Identity p' k = Some (Some v)"
      unfolding id v by (rule ex1I [of _ "asIdentityConfig (Evaluator r)"]) (auto split: if_splits)
  qed
  \<comment> \<open>authorization\<close>
  obtain u' where "evaluateAuthorizationConfigs_range (authorizationChannel env ?p2) ?p2 = (None, p', u')"
    using a by (auto simp: evaluateAuthorizationConfigs_def split: prod.splits)
  from authorization_range_None [OF this]
  have all: "\<forall>r\<in>set (authorizationChannel env ?p2). Success r"
    and ent: "\<forall>k obj. Authorization p' k = Some obj \<longrightarrow>
        (\<exists>r\<in>set (authorizationChannel env ?p2). asAuthorizationConfig (Evaluator r) = k \<and> Object r = obj)"
    using k2 by auto
  have c3: "\<forall>k obj. Authorization p' k = Some obj \<longrightarrow>
            (\<exists>config\<in>set (AuthorizationConfigs apiConfig). \<exists>pl d.
                asAuthorizationConfig config = k \<and> Call env config pl d = (obj, None))"
  proof (intro allI impI)
    fix k obj assume "Authorization p' k = Some obj"
    then obtain s where s: "s \<in> set (authorizationChannel env ?p2)"
      "asAuthorizationConfig (Evaluator s) = k" "Object s = obj"
      using ent by blast
    have "emitted (AuthorizationConfigs (API ?p2)) (\<lambda>config. Call env config ?p2) s"
      using s(1) by (rule authorizationChannel_emitted)
    then have "Evaluator s \<in> set (AuthorizationConfigs apiConfig)"
      "\<exists>d. Call env (Evaluator s) ?p2 d = (Object s, None)"
      using all s(1) k2 by (simp_all add: emitted_def)
    then show "\<exists>config\<in>set (AuthorizationConfigs apiConfig). \<exists>pl d.
                asAuthorizationConfig config = k \<and> Call env config pl d = (obj, None)"
      using s(2,3) by blast
  qed
  have c4: "(\<forall>config\<in>set (AuthorizationConfigs apiConfig). \<forall>pl d obj.
              Call env config pl d = (obj, None) \<longrightarrow> (\<exists>v. obj = Some v \<and> truthy v)) \<longrightarrow>
          (\<forall>k obj. Authorization p' k = Some obj \<longrightarrow> (\<exists>v. obj = Some v \<and> truthy v))"
    using c3 by blast
  show ?thesis by (intro conjI) (rule c1 c2 c3 c4)+
qed

text \<open>
  Claim C3 (identity phase result). If the responses on the channel are \<open>pre @ r # post\<close> with
  every response of \<open>pre\<close> a failure and \<open>r\<close> a success, the phase stores the pair of \<open>r\<close> in the
  identity map, returns no error, and leaves \<open>post\<close> unread. If every response is a failure, the
  phase returns the error of the last response (and nil when there was no response) and leaves
  the pipeline as it is.
\<close>

theorem identity_phase_result:
  "(identityChannel env p = pre @ r # post \<and> (\<forall>q\<in>set pre. \<not> Success q) \<and> Success r \<longrightarrow>
      evaluateIdentityConfigs_range (identityChannel env p) None p =
        (None, p\<lparr>Identity := (Identity p)(asIdentityConfig (Evaluator r) \<mapsto> Object r)\<rparr>, post) \<and>
      evaluateIdentityConfigs env p =
        (None, p\<lparr>Identity := (Identity p)(asIdentityConfig (Evaluator r) \<mapsto> Object r)\<rparr>)) \<and>
   ((\<forall>q\<in>set (identityChannel env p). \<not> Success q) \<longrightarrow>
      evaluateIdentityConfigs env p =
        (if identityChannel env p = [] then None else Error (last (identityChannel env p)), p))"
  by (simp add: evaluateIdentityConfigs_def identity_range_first_success
      identity_range_all_failures)

text \<open>
  Claim C7 (metadata phase). The phase returns the pipeline with the metadata map overridden by
  the pairs of the successful responses, in the order of arrival, and nothing else changed; when
  every response is a failure the pipeline is unchanged. An error returned by \<open>Evaluate\<close> is the
  error of a response of the identity phase or of the authorization phase.
\<close>

theorem metadata_phase_total:
  "evaluateMetadataConfigs env p =
     p\<lparr>Metadata := Metadata p ++
         map_of (rev (map (\<lambda>r. (asMetadataConfig (Evaluator r), Object r))
                       (filter Success (metadataChannel env p))))\<rparr> \<and>
   ((\<forall>r\<in>set (metadataChannel env p). \<not> Success r) \<longrightarrow> evaluateMetadataConfigs env p = p) \<and>
   (\<forall>e. fst (Evaluate env p) = Some e \<longrightarrow>
      (\<exists>r\<in>set (identityChannel env p). Error r = Some e) \<or>
      (\<exists>r\<in>set (authorizationChannel env
                  (evaluateMetadataConfigs env (snd (evaluateIdentityConfigs env p)))).
          Error r = Some e))"
proof (intro conjI allI impI)
  have "Metadata (evaluateMetadataConfigs env p) = Metadata p ++
         map_of (rev (map (\<lambda>r. (asMetadataConfig (Evaluator r), Object r))
                       (filter Success (metadataChannel env p))))"
    unfolding evaluateMetadataConfigs_def by (rule metadata_range_Metadata)
  then show 1: "evaluateMetadataConfigs env p =
     p\<lparr>Metadata := Metadata p ++
         map_of (rev (map (\<lambda>r. (asMetadataConfig (Evaluator r), Object r))
                       (filter Success (metadataChannel env p))))\<rparr>"
    using evaluateMetadataConfigs_keeps [of env p]
    by (cases p; cases "evaluateMetadataConfigs env p") simp
  assume "\<forall>r\<in>set (metadataChannel env p). \<not> Success r"
  then have "filter Success (metadataChannel env p) = []" by (simp add: filter_empty_conv)
  then show "evaluateMetadataConfigs env p = p" using 1 by simp
next
  fix e assume e: "fst (Evaluate env p) = Some e"
  obtain e1 p1 where i: "evaluateIdentityConfigs env p = (e1, p1)"
    by (cases "evaluateIdentityConfigs env p") auto
  obtain e3 p3 where a: "evaluateAuthorizationConfigs env (evaluateMetadataConfigs env p1) = (e3, p3)"
    by (cases "evaluateAuthorizationConfigs env (evaluateMetadataConfigs env p1)") auto
  show "(\<exists>r\<in>set (identityChannel env p). Error r = Some e) \<or>
      (\<exists>r\<in>set (authorizationChannel env
                  (evaluateMetadataConfigs env (snd (evaluateIdentityConfigs env p)))).
          Error r = Some e)"
  proof (cases e1)
    case (Some x)
    then have "x = e" using e i by (simp add: Evaluate_def)
    then obtain u where "evaluateIdentityConfigs_range (identityChannel env p) None p = (Some e, p1, u)"
      using i Some by (auto simp: evaluateIdentityConfigs_def split: prod.splits)
    from identity_range_Some [OF this] show ?thesis by simp
  next
    case None
    then have "e3 = Some e" using e i a by (cases e3) (simp_all add: Evaluate_def Let_def)
    then obtain u where "evaluateAuthorizationConfigs_range
        (authorizationChannel env (evaluateMetadataConfigs env p1)) (evaluateMetadataConfigs env p1) = (Some e, p3, u)"
      using a by (auto simp: evaluateAuthorizationConfigs_def split: prod.splits)
    from authorization_range_Some [OF this] show ?thesis using i by simp
  qed
qed

lemma GetResolvedIdentity_range_find:
  "GetResolvedIdentity_range order m =
     (case find (\<lambda>k. \<exists>v. m k = Some (Some v)) order of
        None \<Rightarrow> (None, None)
      | Some k \<Rightarrow> (Some k, the (m k)))"
  by (induction order) (auto split: option.splits)

lemma GetResolvedMetadata_fold:
  "fold (\<lambda>metadataCfg m.
             (case M metadataCfg of
                Some (Some metadataObj) \<Rightarrow> m(metadataCfg \<mapsto> Some metadataObj)
              | _ \<Rightarrow> m)) order acc k =
   (if k \<in> set order \<and> (\<exists>v. M k = Some (Some v)) then M k else acc k)"
  by (induction order arbitrary: acc) (auto split: option.splits)

lemma GetResolvedMetadata_eq:
  "GetResolvedMetadata order p k =
     (if k \<in> set order \<and> (\<exists>v. Metadata p k = Some (Some v)) then Metadata p k else None)"
  unfolding GetResolvedMetadata_def by (simp add: GetResolvedMetadata_fold)

lemma resolvedMetadata_dom:
  "dom (fold (\<lambda>config m. (case R config of Some obj \<Rightarrow> m(G config \<mapsto> obj) | None \<Rightarrow> m)) order acc) =
   dom acc \<union> G ` (set order \<inter> dom R)"
  by (induction order arbitrary: acc) (auto split: option.splits)

lemma resolvedMetadata_origin:
  "fold (\<lambda>config m. (case R config of Some obj \<Rightarrow> m(G config \<mapsto> obj) | None \<Rightarrow> m)) order acc n = Some obj \<Longrightarrow>
   acc n = Some obj \<or> (\<exists>k\<in>set order. G k = n \<and> R k = Some obj)"
proof (induction order arbitrary: acc)
  case Nil
  then show ?case by simp
next
  case (Cons c order)
  show ?case
  proof (cases "R c")
    case None
    then show ?thesis using Cons.IH [of acc] Cons.prems by auto
  next
    case (Some x)
    then have "fold (\<lambda>config m. (case R config of Some obj \<Rightarrow> m(G config \<mapsto> obj) | None \<Rightarrow> m)) order (acc(G c \<mapsto> x)) n = Some obj"
      using Cons.prems by simp
    then have "(acc(G c \<mapsto> x)) n = Some obj \<or> (\<exists>k\<in>set order. G k = n \<and> R k = Some obj)"
      by (rule Cons.IH)
    then show ?thesis using Some by (cases "G c = n") auto
  qed
qed

lemma resolvedMetadata_inj:
  "inj_on G (set order) \<Longrightarrow> k \<in> set order \<Longrightarrow> R k = Some obj \<Longrightarrow>
   fold (\<lambda>config m. (case R config of Some obj \<Rightarrow> m(G config \<mapsto> obj) | None \<Rightarrow> m)) order acc (G k) = Some obj"
proof (induction order arbitrary: acc)
  case Nil
  then show ?case by simp
next
  case (Cons c order)
  show ?case
  proof (cases "k \<in> set order")
    case True
    then show ?thesis using Cons by (auto split: option.splits)
  next
    case False
    then have kc: "k = c" using Cons.prems by simp
    have "G k \<notin> G ` (set order \<inter> dom R)"
      using Cons.prems(1) False kc by (auto simp: inj_on_def)
    have "\<And>a. a (G k) = Some obj \<Longrightarrow> fold (\<lambda>config m. (case R config of Some obj \<Rightarrow> m(G config \<mapsto> obj) | None \<Rightarrow> m)) order a (G k) = Some obj"
    proof -
      fix a :: "'b \<rightharpoonup> 'c" assume a: "a (G k) = Some obj"
      show "fold (\<lambda>config m. (case R config of Some obj \<Rightarrow> m(G config \<mapsto> obj) | None \<Rightarrow> m)) order a (G k) = Some obj"
      proof (cases "fold (\<lambda>config m. (case R config of Some obj \<Rightarrow> m(G config \<mapsto> obj) | None \<Rightarrow> m)) order a (G k)")
        case None
        then have "G k \<notin> dom (fold (\<lambda>config m. (case R config of Some obj \<Rightarrow> m(G config \<mapsto> obj) | None \<Rightarrow> m)) order a)"
          by auto
        then show ?thesis using a unfolding resolvedMetadata_dom by auto
      next
        case (Some w)
        from resolvedMetadata_origin [OF this]
        have "a (G k) = Some w \<or> (\<exists>ka\<in>set order. G ka = G k \<and> R ka = Some w)" .
        moreover have "\<not> (\<exists>ka\<in>set order. G ka = G k \<and> R ka = Some w)"
          using \<open>G k \<notin> G ` (set order \<inter> dom R)\<close> by (metis IntI domI imageI)
        ultimately show ?thesis using Some a by simp
      qed
    qed
    then show ?thesis using kc Cons.prems(3) by simp
  qed
qed

lemmas run_defs = Evaluate_def evaluateIdentityConfigs_def identityChannel_def
     evaluateOneAuthConfig_def evaluateAuthConfigs_def drain_def NewAuthPipeline_def
     evaluateMetadataConfigs_def metadataChannel_def evaluateAnyAuthConfig_def
     evaluateAuthorizationConfigs_def authorizationChannel_def evaluateAllAuthConfigs_def
     evaluateAuthConfig_def newEvaluationResponse_def Success_def Let_def
     exampleEnv_def examplePipeline_def inOrder_def


text \<open>
  Counterexample to claim C1 as stated: with no identity config the identity phase, and
  \<open>Evaluate\<close>, return no error.
\<close>

theorem identity_empty_succeeds:
  "fst (evaluateIdentityConfigs (exampleEnv []) (examplePipeline [] [MetadataConfig 2] [AuthorizationConfig 1])) = None \<and>
   fst (Evaluate (exampleEnv []) (examplePipeline [] [MetadataConfig 2] [AuthorizationConfig 1])) = None"
  by (simp add: run_defs)

text \<open>
  Witness for C1: a pipeline whose three lists are empty.
\<close>

theorem empty_list_laws_witness:
  "evaluateIdentityConfigs (exampleEnv inOrder) (examplePipeline [] [] []) = (None, examplePipeline [] [] []) \<and>
   evaluateMetadataConfigs (exampleEnv inOrder) (examplePipeline [] [] []) = examplePipeline [] [] [] \<and>
   evaluateAuthorizationConfigs (exampleEnv inOrder) (examplePipeline [] [] []) = (None, examplePipeline [] [] []) \<and>
   fst (Evaluate (exampleEnv inOrder) (examplePipeline [] [] [])) = None"
  using empty_list_laws [of "examplePipeline [] [] []" "exampleEnv inOrder"]
  by (simp add: examplePipeline_def NewAuthPipeline_def)

text \<open>
  Counterexample to claim C2 as stated: a run that returns no error, with an identity map that
  has no entry and an authorization entry that is the object \<open>false\<close>.
\<close>

theorem success_without_identity:
  "fst (Evaluate (exampleEnv []) (examplePipeline [] [] [AuthorizationConfig 3])) = None \<and>
   Identity (snd (Evaluate (exampleEnv []) (examplePipeline [] [] [AuthorizationConfig 3]))) = Map.empty \<and>
   Authorization (snd (Evaluate (exampleEnv []) (examplePipeline [] [] [AuthorizationConfig 3]))) (Some 3) =
     Some (Some (Allowed False)) \<and> \<not> exampleTruthy (Allowed False)"
  by (simp add: run_defs)

lemma GetResolvedIdentity_range_first:
  "(\<forall>q\<in>set pre. m q = Some None) \<Longrightarrow> m k = Some (Some v) \<Longrightarrow>
   GetResolvedIdentity_range (pre @ k # post) m = (Some k, Some v)"
  by (induction pre) auto

lemma resolvedMetadata_keeps:
  "(\<forall>q\<in>set post. R q \<noteq> None \<longrightarrow> G q \<noteq> n) \<Longrightarrow>
   fold (\<lambda>config m. (case R config of Some obj \<Rightarrow> m(G config \<mapsto> obj) | None \<Rightarrow> m)) post acc n = acc n"
  by (induction post arbitrary: acc) (auto split: option.splits)

lemma resolvedMetadata_last:
  "R k = Some obj \<Longrightarrow> (\<forall>q\<in>set post. R q \<noteq> None \<longrightarrow> G q \<noteq> G k) \<Longrightarrow>
   fold (\<lambda>config m. (case R config of Some obj \<Rightarrow> m(G config \<mapsto> obj) | None \<Rightarrow> m))
     (pre @ k # post) acc (G k) = Some obj"
  by (simp add: resolvedMetadata_keeps)

text \<open>
  Claim C8, amended (authorization data). Let the three loops over maps visit every key of their
  map. \<open>GetDataForAuthorization\<close> returns the request's attributes as \<open>context\<close> and a map \<open>auth\<close>
  with the two keys \<open>identity\<close> and \<open>metadata\<close>. \<open>identity\<close> is the first non-nil object of the
  identity map in the order of the visit, and nil if there is none. \<open>metadata\<close> is a map whose
  keys are the names of the metadata configs with a non-nil object, and whose values are such
  objects of a config of that name: the name of a config with a non-nil object is mapped to that
  object when no config that the loop over the resolved metadata visits later has the same name.
  So when the names are distinct, the name of every config with a non-nil object is mapped to
  that object; among configs of one name, the one that is visited last gives the object.
\<close>

theorem authorization_context_assembly:
  assumes io: "set (identityOrder it) = dom (Identity p)"
    and mo: "set (metadataOrder it) = dom (Metadata p)"
    and ro: "set (resolvedOrder it) = dom (GetResolvedMetadata (metadataOrder it) p)"
  shows "Context (GetDataForAuthorization GetName it p) = Attributes (Request p) \<and>
         dom (AuthData (GetDataForAuthorization GetName it p)) = {''identity'', ''metadata''} \<and>
         ((\<forall>k v. Identity p k \<noteq> Some (Some v)) \<longrightarrow>
            AuthData (GetDataForAuthorization GetName it p) ''identity'' = Some (Interface None)) \<and>
         (\<forall>pre k post v. identityOrder it = pre @ k # post \<and>
              (\<forall>q\<in>set pre. Identity p q = Some None) \<and> Identity p k = Some (Some v) \<longrightarrow>
            AuthData (GetDataForAuthorization GetName it p) ''identity'' = Some (Interface (Some v))) \<and>
         (\<exists>mm. AuthData (GetDataForAuthorization GetName it p) ''metadata'' = Some (MetadataMap mm) \<and>
            dom mm = GetName ` {k. \<exists>v. Metadata p k = Some (Some v)} \<and>
            (\<forall>n obj. mm n = Some obj \<longrightarrow>
               (\<exists>k v. GetName k = n \<and> Metadata p k = Some (Some v) \<and> obj = Some v)) \<and>
            (inj_on GetName (dom (Metadata p)) \<longrightarrow>
               (\<forall>k v. Metadata p k = Some (Some v) \<longrightarrow> mm (GetName k) = Some (Some v))) \<and>
            (\<forall>pre k post v. resolvedOrder it = pre @ k # post \<and>
                 (\<forall>q\<in>set post. GetName q \<noteq> GetName k) \<and> Metadata p k = Some (Some v) \<longrightarrow>
               mm (GetName k) = Some (Some v)))"
proof -
  let ?d = "GetDataForAuthorization GetName it p"
  let ?R = "GetResolvedMetadata (metadataOrder it) p"
  let ?mm = "fold (\<lambda>config m. (case ?R config of Some obj \<Rightarrow> m(GetName config \<mapsto> obj) | None \<Rightarrow> m))
                 (resolvedOrder it) Map.empty"
  have R: "\<And>k. ?R k = (if \<exists>v. Metadata p k = Some (Some v) then Metadata p k else None)"
    using mo by (auto simp: GetResolvedMetadata_eq)
  have domR: "dom ?R = {k. \<exists>v. Metadata p k = Some (Some v)}"
    by (auto simp: R dom_def)
  have c: "Context ?d = Attributes (Request p)"
    by (simp add: GetDataForAuthorization_def Let_def GetRequest_def)
  have d: "dom (AuthData ?d) = {''identity'', ''metadata''}"
    by (auto simp: GetDataForAuthorization_def Let_def)
  have i: "AuthData ?d ''identity'' =
      Some (Interface (snd (GetResolvedIdentity_range (identityOrder it) (Identity p))))"
    by (simp add: GetDataForAuthorization_def Let_def GetResolvedIdentity_def)
  have i1: "(\<forall>k v. Identity p k \<noteq> Some (Some v)) \<longrightarrow> AuthData ?d ''identity'' = Some (Interface None)"
  proof
    assume "\<forall>k v. Identity p k \<noteq> Some (Some v)"
    then have "find (\<lambda>k. \<exists>v. Identity p k = Some (Some v)) (identityOrder it) = None"
      by (simp add: find_None_iff)
    then show "AuthData ?d ''identity'' = Some (Interface None)"
      by (simp add: i GetResolvedIdentity_range_find)
  qed
  have i2: "\<forall>pre k post v. identityOrder it = pre @ k # post \<and>
              (\<forall>q\<in>set pre. Identity p q = Some None) \<and> Identity p k = Some (Some v) \<longrightarrow>
            AuthData ?d ''identity'' = Some (Interface (Some v))"
  proof (intro allI impI)
    fix pre k post v
    assume a: "identityOrder it = pre @ k # post \<and>
              (\<forall>q\<in>set pre. Identity p q = Some None) \<and> Identity p k = Some (Some v)"
    have "GetResolvedIdentity_range (pre @ k # post) (Identity p) = (Some k, Some v)"
      using a by (simp add: GetResolvedIdentity_range_first)
    then show "AuthData ?d ''identity'' = Some (Interface (Some v))"
      using a by (simp add: i)
  qed
  have m: "AuthData ?d ''metadata'' = Some (MetadataMap ?mm)"
    by (simp add: GetDataForAuthorization_def Let_def)
  have m1: "dom ?mm = GetName ` {k. \<exists>v. Metadata p k = Some (Some v)}"
    using ro domR by (simp add: resolvedMetadata_dom)
  have m2: "\<forall>n obj. ?mm n = Some obj \<longrightarrow>
               (\<exists>k v. GetName k = n \<and> Metadata p k = Some (Some v) \<and> obj = Some v)"
  proof (intro allI impI)
    fix n obj assume "?mm n = Some obj"
    from resolvedMetadata_origin [OF this]
    obtain k where k: "GetName k = n" "?R k = Some obj" by auto
    then show "\<exists>k v. GetName k = n \<and> Metadata p k = Some (Some v) \<and> obj = Some v"
      by (auto simp: R split: if_splits)
  qed
  have m3: "inj_on GetName (dom (Metadata p)) \<longrightarrow>
               (\<forall>k v. Metadata p k = Some (Some v) \<longrightarrow> ?mm (GetName k) = Some (Some v))"
  proof (intro allI impI)
    fix k v assume inj: "inj_on GetName (dom (Metadata p))" and kv: "Metadata p k = Some (Some v)"
    have sub: "set (resolvedOrder it) \<subseteq> dom (Metadata p)"
      using ro domR by auto
    have "inj_on GetName (set (resolvedOrder it))"
      using inj sub by (rule inj_on_subset)
    moreover have "k \<in> set (resolvedOrder it)" using ro domR kv by simp
    moreover have "?R k = Some (Some v)" using kv by (simp add: R)
    ultimately show "?mm (GetName k) = Some (Some v)" by (rule resolvedMetadata_inj)
  qed
  have m4: "\<forall>pre k post v. resolvedOrder it = pre @ k # post \<and>
                 (\<forall>q\<in>set post. GetName q \<noteq> GetName k) \<and> Metadata p k = Some (Some v) \<longrightarrow>
               ?mm (GetName k) = Some (Some v)"
  proof (intro allI impI)
    fix pre k post v
    assume a: "resolvedOrder it = pre @ k # post \<and>
                 (\<forall>q\<in>set post. GetName q \<noteq> GetName k) \<and> Metadata p k = Some (Some v)"
    have k: "?R k = Some (Some v)" using a by (simp add: R)
    have post: "\<forall>q\<in>set post. ?R q \<noteq> None \<longrightarrow> GetName q \<noteq> GetName k"
      using a by simp
    show "?mm (GetName k) = Some (Some v)"
      unfolding a [THEN conjunct1] using k post by (rule resolvedMetadata_last)
  qed
  show ?thesis by (intro conjI exI [of _ ?mm]) (rule c d i1 i2 m m1 m2 m3 m4)+
qed

lemmas map_defs = resolvedPipeline_def resolvedIteration_def examplePipeline_def NewAuthPipeline_def
  GetDataForAuthorization_def GetResolvedIdentity_def GetResolvedMetadata_def GetRequest_def Let_def

lemma resolved_identityOrder: "set (identityOrder resolvedIteration) = dom (Identity resolvedPipeline)"
    by (simp add: map_defs insert_commute)
lemma resolved_metadataOrder: "set (metadataOrder resolvedIteration) = dom (Metadata resolvedPipeline)"
    by (simp add: map_defs insert_commute)
lemma resolved_resolvedOrder: "set (resolvedOrder resolvedIteration) =
      dom (GetResolvedMetadata (metadataOrder resolvedIteration) resolvedPipeline)"
    by (simp add: map_defs)
lemma resolved_first_identity: "identityOrder resolvedIteration = [Some 1] @ Some 2 # [] \<and>
     (\<forall>q\<in>set [Some 1]. Identity resolvedPipeline q = Some None) \<and>
     Identity resolvedPipeline (Some 2) = Some (Some (UserInfo ''alice''))"
    by (simp add: map_defs)
lemma resolved_names_inj: "inj_on exampleName (dom (Metadata resolvedPipeline))"
    by (simp add: map_defs)
lemma resolved_userinfo: "Metadata resolvedPipeline (Some 5) = Some (Some (UserInfo ''groups''))"
    by (simp add: map_defs)

lemmas same_defs = sameNamePipeline_def firstThenSecond_def secondThenFirst_def examplePipeline_def
  NewAuthPipeline_def

text \<open>
  Counterexample to claim C8 as stated: two metadata configs have the name \<open>other\<close> and the
  non-nil objects \<open>first\<close> and \<open>second\<close>. The map \<open>metadata\<close> has one entry, so the name of one of the
  configs is not mapped to its object; which one depends on the order in which the loop visits the
  resolved metadata.
\<close>

theorem same_name_metadata_depends_on_order:
  "exampleName (Some 7) = ''other'' \<and> exampleName (Some 8) = ''other'' \<and>
   Metadata sameNamePipeline (Some 7) = Some (Some (UserInfo ''first'')) \<and>
   Metadata sameNamePipeline (Some 8) = Some (Some (UserInfo ''second'')) \<and>
   AuthData (GetDataForAuthorization exampleName firstThenSecond sameNamePipeline) ''metadata'' =
     Some (MetadataMap [''other'' \<mapsto> Some (UserInfo ''second'')]) \<and>
   AuthData (GetDataForAuthorization exampleName secondThenFirst sameNamePipeline) ''metadata'' =
     Some (MetadataMap [''other'' \<mapsto> Some (UserInfo ''first'')])"
  by (simp add: sameNamePipeline_def firstThenSecond_def secondThenFirst_def examplePipeline_def
      NewAuthPipeline_def GetDataForAuthorization_def GetResolvedMetadata_def Let_def)

text \<open>
  Witness for C8: an identity map with a nil and a non-nil entry and a metadata map with a
  non-nil and a nil entry; and two metadata configs of one name, of which the one that is
  visited last gives the object.
\<close>

theorem authorization_context_assembly_witness:
  "Context (GetDataForAuthorization exampleName resolvedIteration resolvedPipeline) = () \<and>
   AuthData (GetDataForAuthorization exampleName resolvedIteration resolvedPipeline) ''identity'' =
     Some (Interface (Some (UserInfo ''alice''))) \<and>
   (\<exists>mm. AuthData (GetDataForAuthorization exampleName resolvedIteration resolvedPipeline) ''metadata'' =
           Some (MetadataMap mm) \<and> mm ''userinfo'' = Some (Some (UserInfo ''groups''))) \<and>
   (\<exists>mm. AuthData (GetDataForAuthorization exampleName firstThenSecond sameNamePipeline) ''metadata'' =
           Some (MetadataMap mm) \<and> mm ''other'' = Some (Some (UserInfo ''second'')))"
proof -
  note t = authorization_context_assembly [OF resolved_identityOrder resolved_metadataOrder resolved_resolvedOrder, of exampleName]
  note t1 = t [THEN conjunct1]
  note t4 = t [THEN conjunct2, THEN conjunct2, THEN conjunct2, THEN conjunct1]
  note t5 = t [THEN conjunct2, THEN conjunct2, THEN conjunct2, THEN conjunct2]
  have a: "Context (GetDataForAuthorization exampleName resolvedIteration resolvedPipeline) = ()"
    by simp
  have b: "AuthData (GetDataForAuthorization exampleName resolvedIteration resolvedPipeline) ''identity'' =
     Some (Interface (Some (UserInfo ''alice'')))"
    by (rule t4 [rule_format, OF resolved_first_identity])
  from t5 obtain mm where mm: "AuthData (GetDataForAuthorization exampleName resolvedIteration resolvedPipeline) ''metadata'' =
           Some (MetadataMap mm)"
     and inj: "inj_on exampleName (dom (Metadata resolvedPipeline)) \<longrightarrow>
               (\<forall>k v. Metadata resolvedPipeline k = Some (Some v) \<longrightarrow> mm (exampleName k) = Some (Some v))"
    by (elim exE conjE)
  have "mm (exampleName (Some 5)) = Some (Some (UserInfo ''groups''))"
    by (rule inj [rule_format, OF resolved_names_inj resolved_userinfo])
  then have c: "mm ''userinfo'' = Some (Some (UserInfo ''groups''))" by simp
  have s1: "set (identityOrder firstThenSecond) = dom (Identity sameNamePipeline)"
    by (simp add: same_defs)
  have s2: "set (metadataOrder firstThenSecond) = dom (Metadata sameNamePipeline)"
    by (simp add: same_defs insert_commute)
  have s3: "set (resolvedOrder firstThenSecond) =
      dom (GetResolvedMetadata (metadataOrder firstThenSecond) sameNamePipeline)"
    by (simp add: same_defs GetResolvedMetadata_def insert_commute)
  note u = authorization_context_assembly [OF s1 s2 s3, of exampleName]
  note u5 = u [THEN conjunct2, THEN conjunct2, THEN conjunct2, THEN conjunct2]
  from u5 obtain mm2 where mm2: "AuthData (GetDataForAuthorization exampleName firstThenSecond sameNamePipeline) ''metadata'' =
           Some (MetadataMap mm2)"
     and last: "\<forall>pre k post v. resolvedOrder firstThenSecond = pre @ k # post \<and>
                 (\<forall>q\<in>set post. exampleName q \<noteq> exampleName k) \<and>
                 Metadata sameNamePipeline k = Some (Some v) \<longrightarrow>
               mm2 (exampleName k) = Some (Some v)"
    by (elim exE conjE)
  have h: "resolvedOrder firstThenSecond = [Some 7] @ Some 8 # [] \<and>
      (\<forall>q\<in>set []. exampleName q \<noteq> exampleName (Some 8)) \<and>
      Metadata sameNamePipeline (Some 8) = Some (Some (UserInfo ''second''))"
    by (simp add: same_defs)
  have "mm2 (exampleName (Some 8)) = Some (Some (UserInfo ''second''))"
    by (rule last [THEN spec, THEN spec, THEN spec, THEN spec, THEN mp, OF h])
  then have e: "mm2 ''other'' = Some (Some (UserInfo ''second''))" by simp
  have first: "\<exists>mm. AuthData (GetDataForAuthorization exampleName resolvedIteration resolvedPipeline) ''metadata'' =
           Some (MetadataMap mm) \<and> mm ''userinfo'' = Some (Some (UserInfo ''groups''))"
    by (intro conjI exI [of _ mm]) (rule mm c)+
  have second: "\<exists>mm. AuthData (GetDataForAuthorization exampleName firstThenSecond sameNamePipeline) ''metadata'' =
           Some (MetadataMap mm) \<and> mm ''other'' = Some (Some (UserInfo ''second''))"
    by (intro conjI exI [of _ mm2]) (rule mm2 e)+
  show ?thesis by (intro conjI) (rule a b first second)+
qed

text \<open>
  Witness for C2: the second identity evaluator succeeds first, one metadata evaluator fails,
  the authorization evaluator allows; the run returns no error, the identity map has one non-nil
  entry and the entry of the authorization evaluator is truthy.
\<close>

theorem post_success_invariant_witness:
  "fst (Evaluate (exampleEnv secondFirst)
          (examplePipeline [IdentityConfig 1, IdentityConfig 2] [MetadataConfig 1, MetadataConfig 2]
             [AuthorizationConfig 1])) = None \<and>
   (\<exists>!k. \<exists>v. Identity (snd (Evaluate (exampleEnv secondFirst)
          (examplePipeline [IdentityConfig 1, IdentityConfig 2] [MetadataConfig 1, MetadataConfig 2]
             [AuthorizationConfig 1]))) k = Some (Some v)) \<and>
   (\<exists>v. Authorization (snd (Evaluate (exampleEnv secondFirst)
          (examplePipeline [IdentityConfig 1, IdentityConfig 2] [MetadataConfig 1, MetadataConfig 2]
             [AuthorizationConfig 1]))) (Some 1) = Some (Some v) \<and> exampleTruthy v)"
proof -
  let ?api = "\<lparr>IdentityConfigs = [IdentityConfig 1, IdentityConfig 2],
               MetadataConfigs = [MetadataConfig 1, MetadataConfig 2],
               AuthorizationConfigs = [AuthorizationConfig 1]\<rparr>"
  let ?P = "NewAuthPipeline False \<lparr>Attributes = ()\<rparr> ?api :: (exampleObject, unit) AuthPipeline"
  let ?E = "exampleEnv secondFirst"
  have f: "fst (Evaluate ?E ?P) = None"
    by (simp add: run_defs secondFirst_def)
  then have ev: "Evaluate ?E ?P = (None, snd (Evaluate ?E ?P))"
    by (simp add: prod_eq_iff)
  have ne: "identityChannel ?E ?P \<noteq> []"
    by (simp add: identityChannel_def evaluateOneAuthConfig_def evaluateAuthConfigs_def drain_def
        NewAuthPipeline_def evaluateAuthConfig_def Let_def exampleEnv_def secondFirst_def)
  have Hid: "\<forall>config\<in>set (IdentityConfigs ?api). \<forall>pl d obj.
                Call ?E config pl d = (obj, None) \<longrightarrow> obj \<noteq> None"
    by (simp add: exampleEnv_def)
  have Haz: "\<forall>config\<in>set (AuthorizationConfigs ?api). \<forall>pl d obj.
                Call ?E config pl d = (obj, None) \<longrightarrow> (\<exists>v. obj = Some v \<and> exampleTruthy v)"
    by (simp add: exampleEnv_def)
  note t = post_success_invariant [OF ev ne, of exampleTruthy]
  note t2 = t [THEN conjunct2, THEN conjunct1, THEN mp, OF Hid]
  note t4 = t [THEN conjunct2, THEN conjunct2, THEN conjunct2, THEN mp, OF Haz]
  have az: "Authorization (snd (Evaluate ?E ?P)) (Some 1) = Some (Some (Allowed True))"
    by (simp add: run_defs secondFirst_def)
  have t5: "\<exists>v. Some (Allowed True) = Some v \<and> exampleTruthy v"
    by (rule t4 [THEN spec, THEN spec, THEN mp, OF az])
  show ?thesis using f t2 t5 az by (simp add: examplePipeline_def)
qed

text \<open>
  Witness for C3: a failure followed by two successes, and two failures.
\<close>

theorem identity_phase_result_witness:
  "evaluateIdentityConfigs (exampleEnv inOrder)
     (examplePipeline [IdentityConfig 1, IdentityConfig 2, IdentityConfig 3] [] []) =
     (None, (examplePipeline [IdentityConfig 1, IdentityConfig 2, IdentityConfig 3] [] [])
               \<lparr>Identity := [Some 2 \<mapsto> Some (UserInfo ''alice'')]\<rparr>) \<and>
   snd (snd (evaluateIdentityConfigs_range
     (identityChannel (exampleEnv inOrder)
        (examplePipeline [IdentityConfig 1, IdentityConfig 2, IdentityConfig 3] [] []))
     None (examplePipeline [IdentityConfig 1, IdentityConfig 2, IdentityConfig 3] [] []))) =
     [newEvaluationResponse (IdentityConfig 3) (Some (UserInfo ''alice'')) None] \<and>
   evaluateIdentityConfigs (exampleEnv inOrder) (examplePipeline [IdentityConfig 0, IdentityConfig 1] [] []) =
     (Some ''invalid api key'', examplePipeline [IdentityConfig 0, IdentityConfig 1] [] [])"
proof -
  let ?E = "exampleEnv inOrder"
  let ?P = "examplePipeline [IdentityConfig 1, IdentityConfig 2, IdentityConfig 3] [] []"
  let ?Q = "examplePipeline [IdentityConfig 0, IdentityConfig 1] [] []"
  let ?f1 = "newEvaluationResponse (IdentityConfig 1) None (Some ''invalid api key'')
      :: (exampleObject, string) EvaluationResponse"
  let ?s2 = "newEvaluationResponse (IdentityConfig 2) (Some (UserInfo ''alice'')) None
      :: (exampleObject, string) EvaluationResponse"
  let ?s3 = "newEvaluationResponse (IdentityConfig 3) (Some (UserInfo ''alice'')) None
      :: (exampleObject, string) EvaluationResponse"
  let ?f0 = "newEvaluationResponse (IdentityConfig 0) None (Some ''expired token'')
      :: (exampleObject, string) EvaluationResponse"
  have c1: "identityChannel ?E ?P = [?f1] @ ?s2 # [?s3]"
    by (simp add: identityChannel_def evaluateOneAuthConfig_def evaluateAuthConfigs_def drain_def
        NewAuthPipeline_def evaluateAuthConfig_def Let_def exampleEnv_def examplePipeline_def
        inOrder_def)
  have h1: "identityChannel ?E ?P = [?f1] @ ?s2 # [?s3] \<and> (\<forall>q\<in>set [?f1]. \<not> Success q) \<and> Success ?s2"
    using c1 by (simp add: Success_def newEvaluationResponse_def)
  have c2: "identityChannel ?E ?Q = [?f0, ?f1]"
    by (simp add: identityChannel_def evaluateOneAuthConfig_def evaluateAuthConfigs_def drain_def
        NewAuthPipeline_def evaluateAuthConfig_def Let_def exampleEnv_def examplePipeline_def
        inOrder_def)
  have h2: "\<forall>q\<in>set (identityChannel ?E ?Q). \<not> Success q"
    unfolding c2 by (simp add: Success_def newEvaluationResponse_def)
  note a = identity_phase_result [of ?E ?P "[?f1]" ?s2 "[?s3]", THEN conjunct1, THEN mp, OF h1]
  note b = identity_phase_result [of ?E ?Q "[]" ?f0 "[]", THEN conjunct2, THEN mp, OF h2]
  have i: "\<And>ics mcs acs. Identity (examplePipeline ics mcs acs) = Map.empty"
    by (simp add: examplePipeline_def NewAuthPipeline_def)
  have a1: "evaluateIdentityConfigs ?E ?P =
     (None, ?P\<lparr>Identity := [Some 2 \<mapsto> Some (UserInfo ''alice'')]\<rparr>)"
    using a [THEN conjunct2] by (simp add: newEvaluationResponse_def i)
  have a2: "snd (snd (evaluateIdentityConfigs_range (identityChannel ?E ?P) None ?P)) = [?s3]"
    using a [THEN conjunct1] by simp
  have b1: "evaluateIdentityConfigs ?E ?Q = (Some ''invalid api key'', ?Q)"
    using b unfolding c2 by (simp add: newEvaluationResponse_def)
  show ?thesis by (intro conjI) (rule a1 a2 b1)+
qed

text \<open>
  Witness for C7: a failed and a successful metadata evaluator; a single failed one; a run of
  \<open>Evaluate\<close> that fails in the identity phase.
\<close>

theorem metadata_phase_total_witness:
  "Metadata (evaluateMetadataConfigs (exampleEnv inOrder)
      (examplePipeline [IdentityConfig 1] [MetadataConfig 1, MetadataConfig 2] [])) =
     [Some 2 \<mapsto> Some (UserInfo ''groups'')] \<and>
   evaluateMetadataConfigs (exampleEnv inOrder) (examplePipeline [] [MetadataConfig 1] []) =
     examplePipeline [] [MetadataConfig 1] [] \<and>
   (\<exists>r\<in>set (identityChannel (exampleEnv inOrder)
               (examplePipeline [IdentityConfig 1] [MetadataConfig 1, MetadataConfig 2] [])).
       Error r = Some ''invalid api key'')"
proof -
  let ?E = "exampleEnv inOrder"
  let ?P = "examplePipeline [IdentityConfig 1] [MetadataConfig 1, MetadataConfig 2] []"
  let ?Q = "examplePipeline [] [MetadataConfig 1] []"
  have h2: "\<forall>r\<in>set (metadataChannel ?E ?Q). \<not> Success r"
    by (simp add: metadataChannel_def evaluateAnyAuthConfig_def evaluateAuthConfigs_def drain_def
        NewAuthPipeline_def evaluateAuthConfig_def Let_def exampleEnv_def examplePipeline_def
        inOrder_def Success_def newEvaluationResponse_def)
  have h3: "fst (Evaluate ?E ?P) = Some ''invalid api key''"
    by (simp add: run_defs)
  have az: "authorizationChannel ?E (evaluateMetadataConfigs ?E (snd (evaluateIdentityConfigs ?E ?P))) = []"
    by (simp add: run_defs)
  have mc: "metadataChannel ?E ?P =
     [newEvaluationResponse (MetadataConfig 1) None (Some ''timeout''),
      newEvaluationResponse (MetadataConfig 2) (Some (UserInfo ''groups'')) None]"
    by (simp add: metadataChannel_def evaluateAnyAuthConfig_def evaluateAuthConfigs_def drain_def
        NewAuthPipeline_def evaluateAuthConfig_def Let_def exampleEnv_def examplePipeline_def
        inOrder_def)
  note t = metadata_phase_total [of ?E ?P]
  note u = metadata_phase_total [of ?E ?Q]
  have a: "Metadata (evaluateMetadataConfigs ?E ?P) = [Some 2 \<mapsto> Some (UserInfo ''groups'')]"
  proof -
    have "Metadata (evaluateMetadataConfigs ?E ?P) = Metadata ?P ++
         map_of (rev (map (\<lambda>r. (asMetadataConfig (Evaluator r), Object r))
                       (filter Success (metadataChannel ?E ?P))))"
      by (subst t [THEN conjunct1]) simp
    then show ?thesis unfolding mc
      by (simp add: Success_def newEvaluationResponse_def examplePipeline_def NewAuthPipeline_def)
  qed
  have b: "evaluateMetadataConfigs ?E ?Q = ?Q"
    by (rule u [THEN conjunct2, THEN conjunct1, THEN mp, OF h2])
  have c: "\<exists>r\<in>set (identityChannel ?E ?P). Error r = Some ''invalid api key''"
    using t [THEN conjunct2, THEN conjunct2, THEN spec, THEN mp, OF h3] unfolding az by simp
  show ?thesis by (intro conjI) (rule a b c)+
qed

section \<open>Verification of the credential locator\<close>

lemma Split_nonempty: "Split s sep \<noteq> []"
  by (induction s) (auto split: list.splits)

lemma Split_hd: "hd (Split s sep) = takeWhile (\<lambda>c. c \<noteq> sep) s"
  using Split_nonempty by (induction s) (auto split: list.splits)

lemma Split_tl:
  "sep \<in> set s \<Longrightarrow> tl (Split s sep) = Split (tl (dropWhile (\<lambda>c. c \<noteq> sep) s)) sep"
  using Split_nonempty by (induction s) (auto split: list.splits)

lemma Split_single: "sep \<notin> set s \<Longrightarrow> Split s sep = [s]"
  by (induction s) (auto split: list.splits)

lemma Split_no_sep: "p \<in> set (Split s sep) \<Longrightarrow> sep \<notin> set p"
  by (induction s arbitrary: p) (auto split: list.splits if_splits)

lemma Split_join: "Join (Split s sep) [sep] = s"
proof (induction s)
  case Nil
  then show ?case by simp
next
  case (Cons c s)
  obtain x xs where x: "Split s sep = x # xs"
    using Split_nonempty [of s sep] by (cases "Split s sep") auto
  show ?case using Cons x by (cases xs) auto
qed

lemma Split_length: "length (Split s sep) = Suc (count_list s sep)"
  using Split_nonempty by (induction s) (auto split: list.splits)

lemma index_0: "index (Split s sep) 0 = Inr (takeWhile (\<lambda>c. c \<noteq> sep) s)"
  using Split_nonempty [of s sep] Split_hd [of s sep]
  by (cases "Split s sep") (auto simp: index_def)

lemma index_1_in:
  assumes "sep \<in> set s"
  shows "index (Split s sep) 1 =
     Inr (takeWhile (\<lambda>c. c \<noteq> sep) (tl (dropWhile (\<lambda>c. c \<noteq> sep) s)))"
proof -
  obtain x xs where x: "Split s sep = x # xs" using Split_nonempty by (cases "Split s sep") auto
  then have xs: "xs = Split (tl (dropWhile (\<lambda>c. c \<noteq> sep) s)) sep"
    using Split_tl [OF assms] by simp
  then have "xs \<noteq> []"
    using Split_nonempty [of "tl (dropWhile (\<lambda>c. c \<noteq> sep) s)" sep] by simp
  then obtain y ys where y: "xs = y # ys" by (cases xs) auto
  then have "y = takeWhile (\<lambda>c. c \<noteq> sep) (tl (dropWhile (\<lambda>c. c \<noteq> sep) s))"
    using xs Split_hd [of "tl (dropWhile (\<lambda>c. c \<noteq> sep) s)" sep] by simp
  then show ?thesis using x y by (simp add: index_def)
qed

lemma index_1_out: "sep \<notin> set s \<Longrightarrow> index (Split s sep) 1 = Inl (Panic ''index out of range'')"
  by (simp add: Split_single index_def)

lemma range_not_found:
  "(\<forall>part\<in>set parts. beforeFirstEq (TrimSpace part) \<noteq> keyName) \<Longrightarrow>
   getFromCookieHeader_range parts keyName = Inl notFoundErr"
  by (induction parts) (auto simp: index_0 beforeFirstEq_def Let_def)

lemma range_first:
  "(\<forall>q\<in>set pre. beforeFirstEq (TrimSpace q) \<noteq> keyName) \<Longrightarrow>
   beforeFirstEq (TrimSpace part) = keyName \<Longrightarrow>
   getFromCookieHeader_range (pre @ part # post) keyName =
     index (Split (TrimSpace part) (CHR ''='')) 1"
  by (induction pre) (auto simp: index_0 beforeFirstEq_def Let_def)

lemma HasPrefix_append: "HasPrefix (pre @ rest) pre"
  by (simp add: HasPrefix_def)

lemma HasPrefix_prefix: "HasPrefix s pre = prefix pre s"
  by (auto simp: HasPrefix_def prefix_def) (metis append_take_drop_id)

lemma in_distinct:
  "inAuthHeader \<noteq> inCustomHeader" "inCookieHeader \<noteq> inCustomHeader" "inCookieHeader \<noteq> inAuthHeader"
  "inQuery \<noteq> inCustomHeader" "inQuery \<noteq> inAuthHeader" "inQuery \<noteq> inCookieHeader"
  by (simp_all add: inAuthHeader_def inCustomHeader_def inCookieHeader_def inQuery_def)

text \<open>
  Claim C6 (authorization header). With \<open>in\<close> set to \<open>authorization_header\<close>, the locator returns
  what follows the key selector and a space in the header \<open>authorization\<close>, when the header
  starts with them; it fails with ``credential not found'' when the header is absent or does not
  start with the key selector and a space.
\<close>

theorem authorization_header_extraction:
  "(\<forall>rest. Headers req ''authorization'' = Some (keySelector @ '' '' @ rest) \<longrightarrow>
      GetCredentialsFromReq ToLower \<lparr>KeySelector = keySelector, In = ''authorization_header''\<rparr> req =
        Some (Inr rest)) \<and>
   (Headers req ''authorization'' = None \<longrightarrow>
      GetCredentialsFromReq ToLower \<lparr>KeySelector = keySelector, In = ''authorization_header''\<rparr> req =
        Some (Inl (Err ''credential not found''))) \<and>
   (\<forall>h. Headers req ''authorization'' = Some h \<and> \<not> prefix (keySelector @ '' '') h \<longrightarrow>
      GetCredentialsFromReq ToLower \<lparr>KeySelector = keySelector, In = ''authorization_header''\<rparr> req =
        Some (Inl (Err ''credential not found'')))"
proof -
  have g: "GetCredentialsFromReq ToLower \<lparr>KeySelector = keySelector, In = ''authorization_header''\<rparr> req =
      Some (getCredFromAuthHeader (Headers req) keySelector)"
    by (simp add: GetCredentialsFromReq_def inAuthHeader_def inCustomHeader_def)
  show ?thesis
    unfolding g
    by (auto simp: getCredFromAuthHeader_def Let_def TrimPrefix_def HasPrefix_prefix notFoundErr_def
        credentialNotFoundMsg_def)
qed

text \<open>
  Witness for C6: \<open>Bearer abc\<close> gives \<open>abc\<close>; no header and another scheme are not found.
\<close>

theorem authorization_header_extraction_witness:
  "GetCredentialsFromReq id \<lparr>KeySelector = ''Bearer'', In = ''authorization_header''\<rparr>
     \<lparr>Headers = [''authorization'' \<mapsto> ''Bearer abc''], Path = ''/''\<rparr> = Some (Inr ''abc'') \<and>
   GetCredentialsFromReq id \<lparr>KeySelector = ''Bearer'', In = ''authorization_header''\<rparr>
     \<lparr>Headers = Map.empty, Path = ''/''\<rparr> = Some (Inl (Err ''credential not found'')) \<and>
   GetCredentialsFromReq id \<lparr>KeySelector = ''Bearer'', In = ''authorization_header''\<rparr>
     \<lparr>Headers = [''authorization'' \<mapsto> ''Basic abc''], Path = ''/''\<rparr> =
     Some (Inl (Err ''credential not found''))"
proof -
  let ?c = "\<lparr>KeySelector = ''Bearer'', In = ''authorization_header''\<rparr>"
  let ?r1 = "\<lparr>Headers = [''authorization'' \<mapsto> ''Bearer abc''], Path = ''/''\<rparr>"
  let ?r2 = "\<lparr>Headers = Map.empty, Path = ''/''\<rparr>"
  let ?r3 = "\<lparr>Headers = [''authorization'' \<mapsto> ''Basic abc''], Path = ''/''\<rparr>"
  have h1: "Headers ?r1 ''authorization'' = Some (''Bearer'' @ '' '' @ ''abc'')" by simp
  have h2: "Headers ?r2 ''authorization'' = None" by simp
  have h3: "Headers ?r3 ''authorization'' = Some ''Basic abc'' \<and> \<not> prefix (''Bearer'' @ '' '') ''Basic abc''"
    by simp
  note a = authorization_header_extraction [of ?r1 "''Bearer''" id, THEN conjunct1, THEN spec, THEN mp, OF h1]
  note b = authorization_header_extraction [of ?r2 "''Bearer''" id, THEN conjunct2, THEN conjunct1, THEN mp, OF h2]
  note c = authorization_header_extraction [of ?r3 "''Bearer''" id, THEN conjunct2, THEN conjunct2, THEN spec, THEN mp, OF h3]
  show ?thesis by (intro conjI) (rule a b c)+
qed

lemma cookie_dispatch:
  "GetCredentialsFromReq ToLower \<lparr>KeySelector = keySelector, In = ''cookie''\<rparr> req =
     Some (getFromCookieHeader (Headers req) keySelector)"
  by (simp add: GetCredentialsFromReq_def inAuthHeader_def inCustomHeader_def inCookieHeader_def)

text \<open>
  What the locator does with the header \<open>cookie\<close>. It fails with ``credential not found'' when
  the header is absent, or when no part of it (split at \<open>;\<close> and trimmed) has the key selector
  before its first \<open>=\<close>. For the first part that has the key selector before its first \<open>=\<close>, and
  that has a \<open>=\<close>, it returns the text between the first \<open>=\<close> and the next one, or the end of
  the part when there is no other \<open>=\<close>: the part is split at every \<open>=\<close>, and the second piece
  is returned.
\<close>

lemma cookie_extraction:
  "(Headers req ''cookie'' = None \<longrightarrow>
      GetCredentialsFromReq ToLower \<lparr>KeySelector = keySelector, In = ''cookie''\<rparr> req =
        Some (Inl (Err ''credential not found''))) \<and>
   (\<forall>header. Headers req ''cookie'' = Some header \<and>
        (\<forall>part\<in>set (Split header (CHR '';'')). beforeFirstEq (TrimSpace part) \<noteq> keySelector) \<longrightarrow>
      GetCredentialsFromReq ToLower \<lparr>KeySelector = keySelector, In = ''cookie''\<rparr> req =
        Some (Inl (Err ''credential not found''))) \<and>
   (\<forall>header pre part post. Headers req ''cookie'' = Some header \<and>
        Split header (CHR '';'') = pre @ part # post \<and>
        (\<forall>q\<in>set pre. beforeFirstEq (TrimSpace q) \<noteq> keySelector) \<and>
        beforeFirstEq (TrimSpace part) = keySelector \<and> CHR ''='' \<in> set (TrimSpace part) \<longrightarrow>
      GetCredentialsFromReq ToLower \<lparr>KeySelector = keySelector, In = ''cookie''\<rparr> req =
        Some (Inr (beforeFirstEq (afterFirstEq (TrimSpace part)))))"
proof (intro conjI allI impI)
  assume "Headers req ''cookie'' = None"
  then show "GetCredentialsFromReq ToLower \<lparr>KeySelector = keySelector, In = ''cookie''\<rparr> req =
        Some (Inl (Err ''credential not found''))"
    by (simp add: cookie_dispatch getFromCookieHeader_def notFoundErr_def credentialNotFoundMsg_def)
next
  fix header
  assume a: "Headers req ''cookie'' = Some header \<and>
        (\<forall>part\<in>set (Split header (CHR '';'')). beforeFirstEq (TrimSpace part) \<noteq> keySelector)"
  then have "getFromCookieHeader_range (Split header (CHR '';'')) keySelector = Inl notFoundErr"
    by (simp add: range_not_found)
  then show "GetCredentialsFromReq ToLower \<lparr>KeySelector = keySelector, In = ''cookie''\<rparr> req =
        Some (Inl (Err ''credential not found''))"
    using a by (simp add: cookie_dispatch getFromCookieHeader_def notFoundErr_def credentialNotFoundMsg_def)
next
  fix header pre part post
  assume a: "Headers req ''cookie'' = Some header \<and>
        Split header (CHR '';'') = pre @ part # post \<and>
        (\<forall>q\<in>set pre. beforeFirstEq (TrimSpace q) \<noteq> keySelector) \<and>
        beforeFirstEq (TrimSpace part) = keySelector \<and> CHR ''='' \<in> set (TrimSpace part)"
  then have "getFromCookieHeader_range (pre @ part # post) keySelector =
      index (Split (TrimSpace part) (CHR ''='')) 1"
    by (simp add: range_first)
  also have "\<dots> = Inr (beforeFirstEq (afterFirstEq (TrimSpace part)))"
    using a index_1_in [of "CHR ''=''" "TrimSpace part"]
    by (simp add: beforeFirstEq_def afterFirstEq_def)
  finally show "GetCredentialsFromReq ToLower \<lparr>KeySelector = keySelector, In = ''cookie''\<rparr> req =
        Some (Inr (beforeFirstEq (afterFirstEq (TrimSpace part))))"
    using a by (simp add: cookie_dispatch getFromCookieHeader_def)
qed

text \<open>
  Claim C9 (cookie extraction is not total). When the first part whose key is the key selector is,
  once trimmed, the key selector itself with no \<open>=\<close> in it, the split at \<open>=\<close> has one piece and the
  locator reads the piece of index 1: it panics, and returns neither a credential nor an error.
\<close>

theorem cookie_extraction_panics:
  "Headers req ''cookie'' = Some header \<and> Split header (CHR '';'') = pre @ part # post \<and>
   (\<forall>q\<in>set pre. beforeFirstEq (TrimSpace q) \<noteq> keySelector) \<and>
   TrimSpace part = keySelector \<and> CHR ''='' \<notin> set keySelector \<longrightarrow>
   GetCredentialsFromReq ToLower \<lparr>KeySelector = keySelector, In = ''cookie''\<rparr> req =
     Some (Inl (Panic ''index out of range''))"
proof
  assume a: "Headers req ''cookie'' = Some header \<and> Split header (CHR '';'') = pre @ part # post \<and>
   (\<forall>q\<in>set pre. beforeFirstEq (TrimSpace q) \<noteq> keySelector) \<and>
   TrimSpace part = keySelector \<and> CHR ''='' \<notin> set keySelector"
  then have k: "beforeFirstEq (TrimSpace part) = keySelector"
    by (auto simp: beforeFirstEq_def takeWhile_eq_all_conv)
  have "getFromCookieHeader_range (pre @ part # post) keySelector =
      index (Split (TrimSpace part) (CHR ''='')) 1"
    using a k by (simp add: range_first)
  also have "\<dots> = Inl (Panic ''index out of range'')"
    using a index_1_out [of "CHR ''=''" "TrimSpace part"] by simp
  finally show "GetCredentialsFromReq ToLower \<lparr>KeySelector = keySelector, In = ''cookie''\<rparr> req =
     Some (Inl (Panic ''index out of range''))"
    using a by (simp add: cookie_dispatch getFromCookieHeader_def)
qed


lemma trim_token: "TrimSpace '' token=xyz'' = ''token=xyz''"
  by (simp add: TrimSpace_def unicodeSpace_def)

lemma trim_a: "TrimSpace ''a=1'' = ''a=1''"
  by (simp add: TrimSpace_def unicodeSpace_def)

lemma trim_plain: "TrimSpace ''token'' = ''token''"
  by (simp add: TrimSpace_def unicodeSpace_def)

lemma trim_ab: "TrimSpace ''token=a=b'' = ''token=a=b''"
  by (simp add: TrimSpace_def unicodeSpace_def)

text \<open>
  Claim C5 (cookie extraction returns everything after the first \<open>=\<close> of the part whose key is
  the key selector). The locator does not: for the header \<open>cookie: token=a=b\<close> and the key
  selector \<open>token\<close>, the part has the key \<open>token\<close> before its first \<open>=\<close> and \<open>a=b\<close> after it, and
  the locator returns \<open>a\<close>.
\<close>

theorem cookie_value_cut_at_second_eq:
  "GetCredentialsFromReq id \<lparr>KeySelector = ''token'', In = ''cookie''\<rparr>
     \<lparr>Headers = [''cookie'' \<mapsto> ''token=a=b''], Path = ''/''\<rparr> = Some (Inr ''a'') \<and>
   beforeFirstEq (TrimSpace ''token=a=b'') = ''token'' \<and>
   afterFirstEq (TrimSpace ''token=a=b'') = ''a=b''"
  by (simp add: cookie_dispatch getFromCookieHeader_def trim_ab index_def beforeFirstEq_def
      afterFirstEq_def)

text \<open>
  On the cookie header of the specification, with no header, and with a header without the key,
  the locator does what the specification says.
\<close>

lemma cookie_extraction_examples:
  "GetCredentialsFromReq id \<lparr>KeySelector = ''token'', In = ''cookie''\<rparr>
     \<lparr>Headers = [''cookie'' \<mapsto> ''a=1; token=xyz; b=2''], Path = ''/''\<rparr> = Some (Inr ''xyz'') \<and>
   GetCredentialsFromReq id \<lparr>KeySelector = ''token'', In = ''cookie''\<rparr>
     \<lparr>Headers = Map.empty, Path = ''/''\<rparr> = Some (Inl (Err ''credential not found'')) \<and>
   GetCredentialsFromReq id \<lparr>KeySelector = ''token'', In = ''cookie''\<rparr>
     \<lparr>Headers = [''cookie'' \<mapsto> ''a=1''], Path = ''/''\<rparr> = Some (Inl (Err ''credential not found''))"
proof -
  let ?c = "\<lparr>KeySelector = ''token'', In = ''cookie''\<rparr>"
  let ?r1 = "\<lparr>Headers = [''cookie'' \<mapsto> ''a=1; token=xyz; b=2''], Path = ''/''\<rparr>"
  let ?r2 = "\<lparr>Headers = Map.empty :: string \<rightharpoonup> string, Path = ''/''\<rparr>"
  let ?r3 = "\<lparr>Headers = [''cookie'' \<mapsto> ''a=1''], Path = ''/''\<rparr>"
  have h1: "Headers ?r1 ''cookie'' = Some ''a=1; token=xyz; b=2'' \<and>
        Split ''a=1; token=xyz; b=2'' (CHR '';'') = [''a=1''] @ '' token=xyz'' # ['' b=2''] \<and>
        (\<forall>q\<in>set [''a=1'']. beforeFirstEq (TrimSpace q) \<noteq> ''token'') \<and>
        beforeFirstEq (TrimSpace '' token=xyz'') = ''token'' \<and> CHR ''='' \<in> set (TrimSpace '' token=xyz'')"
    by (simp add: trim_token trim_a beforeFirstEq_def)
  have h2: "Headers ?r2 ''cookie'' = None" by simp
  have h3: "Headers ?r3 ''cookie'' = Some ''a=1'' \<and>
        (\<forall>part\<in>set (Split ''a=1'' (CHR '';'')). beforeFirstEq (TrimSpace part) \<noteq> ''token'')"
    by (simp add: trim_a beforeFirstEq_def)
  have v: "beforeFirstEq (afterFirstEq (TrimSpace '' token=xyz'')) = ''xyz''"
    by (simp add: trim_token beforeFirstEq_def afterFirstEq_def)
  note a = cookie_extraction [of ?r1 id "''token''", THEN conjunct2, THEN conjunct2,
      THEN spec, THEN spec, THEN spec, THEN spec, THEN mp, OF h1]
  note b = cookie_extraction [of ?r2 id "''token''", THEN conjunct1, THEN mp, OF h2]
  note c = cookie_extraction [of ?r3 id "''token''", THEN conjunct2, THEN conjunct1, THEN spec, THEN mp, OF h3]
  show ?thesis by (intro conjI) (rule a [unfolded v] b c)+
qed

text \<open>
  Witness for C9: the header \<open>token\<close> and the key selector \<open>token\<close>.
\<close>

theorem cookie_extraction_panics_witness:
  "GetCredentialsFromReq id \<lparr>KeySelector = ''token'', In = ''cookie''\<rparr>
     \<lparr>Headers = [''cookie'' \<mapsto> ''token''], Path = ''/''\<rparr> = Some (Inl (Panic ''index out of range''))"
proof -
  have h: "Headers \<lparr>Headers = [''cookie'' \<mapsto> ''token''], Path = ''/''\<rparr> ''cookie'' = Some ''token'' \<and>
     Split ''token'' (CHR '';'') = [] @ ''token'' # [] \<and>
     (\<forall>q\<in>set []. beforeFirstEq (TrimSpace q) \<noteq> ''token'') \<and>
     TrimSpace ''token'' = ''token'' \<and> CHR ''='' \<notin> set ''token''"
    by (simp add: trim_plain)
  show ?thesis by (rule cookie_extraction_panics [THEN mp, OF h])
qed

subsection \<open>Key selectors without operators: the expression is a literal search\<close>

text \<open>The lexer reads a key selector without operators as its letters.\<close>

lemma lexNormal_plain: "plain c \<Longrightarrow> lexNormal c = Parsed (Normal, [TChar c])"
  by (simp add: plain_def lexNormal_def)

lemma lex_plain:
  "list_all plain k \<Longrightarrow>
   lex Normal (k @ rest) =
     (case lex Normal rest of
        Parsed ts \<Rightarrow> Parsed (map TChar k @ ts)
      | SyntaxError msg \<Rightarrow> SyntaxError msg
      | NotModelled \<Rightarrow> NotModelled)"
  by (induction k) (auto simp: lexNormal_plain split: parsed.splits)

lemma lex_suffix:
  "lex Normal (''=)(?P<'' @ credValue @ ''>[^&]*)'') =
     Parsed [TChar (CHR ''=''), TClose, TOpen ''credValue'',
             TClass True [(CHR ''&'', CHR ''&'')], TStar, TClose]"
  by code_simp

lemma lex_prefix:
  "lex Normal (''([?&]'' @ rest) =
     (case lex Normal rest of
        Parsed ts \<Rightarrow> Parsed (TOpen [] # TClass False [(CHR ''?'', CHR ''?''), (CHR ''&'', CHR ''&'')] # ts)
      | SyntaxError msg \<Rightarrow> SyntaxError msg
      | NotModelled \<Rightarrow> NotModelled)"
  by (simp add: lexNormal_def lexClassChar_def isASCII_def split: parsed.splits)

lemma lex_pattern:
  "list_all plain k \<Longrightarrow>
   lex Normal (''([?&]'' @ k @ ''=)(?P<'' @ credValue @ ''>[^&]*)'') =
     Parsed (TOpen [] # TClass False [(CHR ''?'', CHR ''?''), (CHR ''&'', CHR ''&'')] #
             map TChar k @
             [TChar (CHR ''=''), TClose, TOpen ''credValue'',
              TClass True [(CHR ''&'', CHR ''&'')], TStar, TClose])"
  by (simp only: lex_prefix lex_plain lex_suffix parsed.case)

text \<open>The parser builds \<open>keyRegexp\<close> from these tokens.\<close>

lemma parse_literals:
  "parseTokens \<lparr>stack = \<lparr>group = g, operands = ops\<rparr> # fs, numCap = n, names = ns\<rparr>
     (map TChar k @ ts) =
   parseTokens \<lparr>stack = \<lparr>group = g, operands = rev (map OpLiteral k) @ ops\<rparr> # fs, numCap = n,
     names = ns\<rparr> ts"
  by (induction k arbitrary: ops) (simp_all add: push_def)

lemma anchored_literals: "\<not> (\<exists>r\<in>set (map OpLiteral k). anchored r)"
  by (induction k) auto

lemma Compile_plain:
  assumes "list_all plain k"
  shows "Compile (''([?&]'' @ k @ ''=)(?P<'' @ credValue @ ''>[^&]*)'') = Parsed (keyRegexp k)"
proof -
  let ?p1 = "\<lparr>stack = [\<lparr>group = (Suc 0, []), operands = [OpCharClass False [(CHR ''?'', CHR ''?''), (CHR ''&'', CHR ''&'')]]\<rparr>,
                        \<lparr>group = (0, []), operands = []\<rparr>], numCap = Suc 0, names = [[], []]\<rparr>"
  have "parseTokens \<lparr>stack = [\<lparr>group = (0, []), operands = []\<rparr>], numCap = 0, names = [[]]\<rparr>
          (TOpen [] # TClass False [(CHR ''?'', CHR ''?''), (CHR ''&'', CHR ''&'')] #
             map TChar k @
             [TChar (CHR ''=''), TClose, TOpen ''credValue'',
              TClass True [(CHR ''&'', CHR ''&'')], TStar, TClose]) =
        parseTokens ?p1 (map TChar k @
             [TChar (CHR ''=''), TClose, TOpen ''credValue'',
              TClass True [(CHR ''&'', CHR ''&'')], TStar, TClose])"
    by (simp add: push_def)
  also have "\<dots> = parseTokens \<lparr>stack = [\<lparr>group = (Suc 0, []), operands = rev (map OpLiteral k) @ [OpCharClass False [(CHR ''?'', CHR ''?''), (CHR ''&'', CHR ''&'')]]\<rparr>,
                        \<lparr>group = (0, []), operands = []\<rparr>], numCap = Suc 0, names = [[], []]\<rparr>
             [TChar (CHR ''=''), TClose, TOpen ''credValue'',
              TClass True [(CHR ''&'', CHR ''&'')], TStar, TClose]"
    by (rule parse_literals)
  also have "\<dots> = Parsed \<lparr>stack = [\<lparr>group = (0, []), operands =
        [OpCapture 2 ''credValue'' (OpConcat [OpStar (OpCharClass True [(CHR ''&'', CHR ''&'')])]),
         OpCapture 1 [] (OpConcat (OpCharClass False [(CHR ''?'', CHR ''?''), (CHR ''&'', CHR ''&'')] #
                                   map OpLiteral k @ [OpLiteral (CHR ''='')]))]\<rparr>],
        numCap = 2, names = ['''', '''', ''credValue'']\<rparr>"
    by (simp add: push_def repeat_def rev_map)
  finally have parsed: "parseTokens \<lparr>stack = [\<lparr>group = (0, []), operands = []\<rparr>], numCap = 0, names = [[]]\<rparr>
          (TOpen [] # TClass False [(CHR ''?'', CHR ''?''), (CHR ''&'', CHR ''&'')] #
             map TChar k @
             [TChar (CHR ''=''), TClose, TOpen ''credValue'',
              TClass True [(CHR ''&'', CHR ''&'')], TStar, TClose]) =
        Parsed \<lparr>stack = [\<lparr>group = (0, []), operands =
        [OpCapture 2 ''credValue'' (OpConcat [OpStar (OpCharClass True [(CHR ''&'', CHR ''&'')])]),
         OpCapture 1 [] (OpConcat (OpCharClass False [(CHR ''?'', CHR ''?''), (CHR ''&'', CHR ''&'')] #
                                   map OpLiteral k @ [OpLiteral (CHR ''='')]))]\<rparr>],
        numCap = 2, names = [[], [], ''credValue'']\<rparr>" .
  show ?thesis
    using anchored_literals [of k]
    by (subst Compile_def, subst lex_pattern [OF assms], simp only: parsed.case parsed)
       (simp add: keyRegexp_def)
qed

text \<open>The matcher on literals, on the star of a negated class and on the two groups.\<close>

lemma inRanges_one: "inRanges [(c, c)] x = (x = c)"
  by (auto simp: inRanges_def)

lemma inRanges_two: "inRanges [(a, a), (b, b)] x = (x = a \<or> x = b)"
  by (auto simp: inRanges_def)

lemma backtrack_literals:
  "backtrack (OpConcat (map OpLiteral k @ rs)) s caps =
     (if prefix k s then backtrack (OpConcat rs) (drop (length k) s) caps else [])"
proof (induction k arbitrary: s)
  case Nil
  then show ?case by simp
next
  case (Cons c k)
  show ?case
  proof (cases s)
    case Nil
    then show ?thesis by simp
  next
    case (Cons x xs)
    then show ?thesis using Cons.IH [of xs] by simp
  qed
qed

lemma backtrack_star_not:
  "\<exists>rest. backtrack (OpStar (OpCharClass True [(c, c)])) s caps =
      (dropWhile (\<lambda>x. x \<noteq> c) s, caps) # rest"
proof (induction s)
  case Nil
  then show ?case by simp
next
  case (Cons x xs)
  then obtain rest where IH: "backtrack (OpStar (OpCharClass True [(c, c)])) xs caps =
      (dropWhile (\<lambda>x. x \<noteq> c) xs, caps) # rest" by blast
  show ?case
  proof (cases "x = c")
    case True
    then show ?thesis
      by (subst backtrack.simps(8)) (simp add: inRanges_one del: backtrack.simps(8))
  next
    case False
    then show ?thesis
      by (subst backtrack.simps(8)) (simp add: inRanges_one IH del: backtrack.simps(8))
  qed
qed

lemma concat_singletons: "concat (map (\<lambda>(s', caps'). [(s', caps')]) xs) = xs"
  by (induction xs) auto

lemma take_until: "take (length s - length (dropWhile P s)) s = takeWhile P s"
proof -
  have "length (takeWhile P s) + length (dropWhile P s) = length s"
    by (induction s) auto
  then have "length s - length (dropWhile P s) = length (takeWhile P s)"
    by arith
  then show ?thesis using takeWhile_eq_take [of P s] by simp
qed

lemma literal_then_eq:
  "(if prefix k xs
    then (case drop (length k) xs of [] \<Rightarrow> [] | y # ys \<Rightarrow> if y = e then [(ys, caps)] else [])
    else []) =
   (if prefix (k @ [e]) xs then [(drop (Suc (length k)) xs, caps)] else [])"
proof (cases "prefix k xs")
  case False
  then have "\<not> prefix (k @ [e]) xs" by (auto simp: prefix_def)
  with False show ?thesis by simp
next
  case True
  then obtain r where r: "xs = k @ r" by (auto simp: prefix_def)
  show ?thesis
  proof (cases r)
    case Nil
    then show ?thesis using r by simp
  next
    case (Cons y ys)
    then show ?thesis using r by (auto simp: prefix_def)
  qed
qed

lemma backtrack_key_group:
  "backtrack (OpConcat (OpCharClass False [(a, a), (b, b)] # map OpLiteral k @ [OpLiteral e])) s caps =
     (case s of
        [] \<Rightarrow> []
      | x # xs \<Rightarrow>
          if (x = a \<or> x = b) \<and> prefix (k @ [e]) xs then [(drop (Suc (length k)) xs, caps)] else [])"
proof (cases s)
  case Nil
  then show ?thesis by simp
next
  case (Cons x xs)
  have "backtrack (OpConcat (map OpLiteral k @ [OpLiteral e])) xs caps =
      (if prefix (k @ [e]) xs then [(drop (Suc (length k)) xs, caps)] else [])"
    unfolding backtrack_literals literal_then_eq [symmetric]
    by (simp add: concat_singletons split: list.splits)
  then show ?thesis using Cons by (simp add: inRanges_two)
qed

lemma backtrack_value_group:
  "\<exists>rest. backtrack (OpConcat [OpCapture n name (OpConcat [OpStar (OpCharClass True [(c, c)])])]) s caps =
     (dropWhile (\<lambda>x. x \<noteq> c) s, (n, takeWhile (\<lambda>x. x \<noteq> c) s) # caps) # rest"
proof -
  obtain rest where r: "backtrack (OpStar (OpCharClass True [(c, c)])) s caps =
      (dropWhile (\<lambda>x. x \<noteq> c) s, caps) # rest"
    using backtrack_star_not by blast
  show ?thesis
    by (simp add: concat_singletons r take_until del: backtrack.simps(8))
qed

text \<open>
  The leftmost match of \<open>keyRegexp\<close> is at the first place where the key is, and its group
  \<open>credValue\<close> is what the literal search returns.
\<close>

lemma backtrack_key_capture:
  "backtrack (OpCapture 1 [] (OpConcat (OpCharClass False [(CHR ''?'', CHR ''?''), (CHR ''&'', CHR ''&'')] #
                                   map OpLiteral k @ [OpLiteral (CHR ''='')]))) s [] =
     (case s of
        [] \<Rightarrow> []
      | x # xs \<Rightarrow>
          if keyAt k x xs
          then [(drop (Suc (length k)) xs, [(1, take (length s - length (drop (Suc (length k)) xs)) s)])]
          else [])"
  by (cases s) (simp_all add: backtrack_key_group keyAt_def del: backtrack.simps(7))

lemma backtrack_keyRegexp:
  "backtrack (prog (keyRegexp k)) s [] =
     concat (map (\<lambda>(s', caps'). backtrack (OpConcat [OpCapture 2 ''credValue''
                    (OpConcat [OpStar (OpCharClass True [(CHR ''&'', CHR ''&'')])])]) s' caps')
        (case s of
        [] \<Rightarrow> []
      | x # xs \<Rightarrow>
          if keyAt k x xs
          then [(drop (Suc (length k)) xs, [(1, take (length s - length (drop (Suc (length k)) xs)) s)])]
          else []))"
  unfolding keyRegexp_def Regexp.simps
  by (subst backtrack.simps(7)) (simp only: backtrack_key_capture)

lemma backtrack_keyRegexp_Nil: "backtrack (prog (keyRegexp k)) [] [] = []"
  by (simp add: backtrack_keyRegexp)

lemma backtrack_keyRegexp_no:
  "\<not> keyAt k x xs \<Longrightarrow> backtrack (prog (keyRegexp k)) (x # xs) [] = []"
  by (simp add: backtrack_keyRegexp)

lemma backtrack_keyRegexp_yes:
  assumes "keyAt k x xs"
  shows "\<exists>rest g1 others. backtrack (prog (keyRegexp k)) (x # xs) [] =
     (rest, [(2, takeWhile (\<lambda>c. c \<noteq> CHR ''&'') (drop (Suc (length k)) xs)), (1, g1)]) # others"
proof -
  let ?s1 = "drop (Suc (length k)) xs"
  let ?c1 = "[(1, take (length (x # xs) - length ?s1) (x # xs))]"
  obtain rest where 2: "backtrack (OpConcat [OpCapture 2 ''credValue'' (OpConcat [OpStar (OpCharClass True [(CHR ''&'', CHR ''&'')])])]) ?s1 ?c1 =
     (dropWhile (\<lambda>c. c \<noteq> CHR ''&'') ?s1, (2, takeWhile (\<lambda>c. c \<noteq> CHR ''&'') ?s1) # ?c1) # rest"
    using backtrack_value_group by blast
  have "backtrack (prog (keyRegexp k)) (x # xs) [] =
      (dropWhile (\<lambda>c. c \<noteq> CHR ''&'') ?s1, (2, takeWhile (\<lambda>c. c \<noteq> CHR ''&'') ?s1) # ?c1) # rest"
    using assms 2 by (simp add: backtrack_keyRegexp del: backtrack.simps)
  then show ?thesis by blast
qed

lemma submatches_keyRegexp_found:
  "getCredFromQuery_literal path k = Inr v \<Longrightarrow>
   \<exists>whole g1. submatches (keyRegexp k) path = [whole, g1, v]"
proof (induction path)
  case Nil
  then show ?case by (simp add: notFoundErr_def)
next
  case (Cons x xs)
  show ?case
  proof (cases "keyAt k x xs")
    case True
    then have v: "v = takeWhile (\<lambda>c. c \<noteq> CHR ''&'') (drop (Suc (length k)) xs)"
      using Cons.prems by (simp add: keyAt_def)
    from backtrack_keyRegexp_yes [OF True] obtain rest g1 others where
      b: "backtrack (prog (keyRegexp k)) (x # xs) [] = (rest, [(2, v), (1, g1)]) # others"
      unfolding v by blast
    have u: "[Suc 0..<3] = [Suc 0, 2]" by (simp add: upt_rec)
    have n: "length (subexpNames (keyRegexp k)) = 3" by (simp add: keyRegexp_def)
    show ?thesis
      by (subst submatches.simps) (simp add: b n u del: submatches.simps)
  next
    case False
    then have "getCredFromQuery_literal xs k = Inr v"
      using Cons.prems by (auto simp: keyAt_def split: if_splits)
    then obtain whole g1 where "submatches (keyRegexp k) xs = [whole, g1, v]"
      using Cons.IH by blast
    then show ?thesis
      using False
      by (subst submatches.simps) (simp add: backtrack_keyRegexp_no del: submatches.simps)
  qed
qed

lemma submatches_keyRegexp_not_found:
  "getCredFromQuery_literal path k = Inl e \<Longrightarrow> submatches (keyRegexp k) path = []"
proof (induction path)
  case Nil
  then show ?case by (simp add: backtrack_keyRegexp_Nil)
next
  case (Cons x xs)
  have no: "\<not> keyAt k x xs" using Cons.prems by (auto simp: keyAt_def)
  then have "getCredFromQuery_literal xs k = Inl e"
    using Cons.prems by (auto simp: keyAt_def split: if_splits)
  then have "submatches (keyRegexp k) xs = []" by (rule Cons.IH)
  then show ?case
    using no by (subst submatches.simps) (simp add: backtrack_keyRegexp_no del: submatches.simps)
qed

lemma literal_error: "getCredFromQuery_literal path k = Inl e \<Longrightarrow> e = notFoundErr"
  by (induction path) (auto split: if_splits)

lemma query_plain_key:
  assumes "list_all plain k" "list_all isASCII path"
  shows "getCredFromQuery path k = Some (getCredFromQuery_literal path k)"
proof (cases "getCredFromQuery_literal path k")
  case (Inl e)
  then show ?thesis
    unfolding getCredFromQuery_def Compile_plain [OF assms(1)]
    using assms(2) literal_error [OF Inl]
    by (simp add: FindStringSubmatch_def submatches_keyRegexp_not_found del: submatches.simps)
next
  case (Inr v)
  then obtain whole g1 where "submatches (keyRegexp k) path = [whole, g1, v]"
    using submatches_keyRegexp_found by blast
  then show ?thesis
    unfolding getCredFromQuery_def Compile_plain [OF assms(1)]
    using assms(2) Inr
    by (simp add: FindStringSubmatch_def SubexpIndex_def keyRegexp_def credValue_def indexInt_def
        del: submatches.simps)
qed

text \<open>
  Claim C10, amended (the key selector is a piece of a regular expression). For a key selector
  of ASCII characters without operators of a regular expression, and an ASCII path, the locator
  returns what the literal search of the key returns. For the key \<open>a.c\<close> it finds a credential in
  the path \<open>/p?abc=1\<close>, where a search for the letters of the key finds none. For the key \<open>(\<close>
  the expression does not compile and \<open>MustCompile\<close> panics, so the locator is not total. For
  the key \<open>a[\<close> the expression does compile; the locator then panics with an index out of range
  on a path that matches, and returns ``credential not found'' on a path that does not.
\<close>

theorem query_selector_is_a_regexp:
  "(\<forall>path k. list_all plain k \<and> list_all isASCII path \<longrightarrow>
      getCredFromQuery path k = Some (getCredFromQuery_literal path k)) \<and>
   getCredFromQuery ''/p?foo=1&token=xyz&bar=2'' ''token'' = Some (Inr ''xyz'') \<and>
   getCredFromQuery ''/p?abc=1'' ''a.c'' = Some (Inr ''1'') \<and>
   getCredFromQuery_literal ''/p?abc=1'' ''a.c'' = Inl (Err ''credential not found'') \<and>
   getCredFromQuery ''/p?token=xyz'' ''('' = Some (Inl (Panic ''regexp: Compile: missing closing )'')) \<and>
   GetCredentialsFromReq id \<lparr>KeySelector = ''('', In = ''query''\<rparr>
     \<lparr>Headers = Map.empty, Path = ''/p?token=xyz''\<rparr> =
       Some (Inl (Panic ''regexp: Compile: missing closing )'')) \<and>
   getCredFromQuery ''/p?a=1'' ''a['' = Some (Inl (Panic ''index out of range'')) \<and>
   getCredFromQuery ''/p?token=xyz'' ''a['' = Some (Inl (Err ''credential not found''))"
proof -
  have general: "\<forall>path k. list_all plain k \<and> list_all isASCII path \<longrightarrow>
      getCredFromQuery path k = Some (getCredFromQuery_literal path k)"
    by (intro allI impI, elim conjE) (rule query_plain_key)
  have examples:
    "getCredFromQuery ''/p?foo=1&token=xyz&bar=2'' ''token'' = Some (Inr ''xyz'') \<and>
     getCredFromQuery ''/p?abc=1'' ''a.c'' = Some (Inr ''1'') \<and>
     getCredFromQuery_literal ''/p?abc=1'' ''a.c'' = Inl (Err ''credential not found'') \<and>
     getCredFromQuery ''/p?token=xyz'' ''('' = Some (Inl (Panic ''regexp: Compile: missing closing )'')) \<and>
     GetCredentialsFromReq id \<lparr>KeySelector = ''('', In = ''query''\<rparr>
       \<lparr>Headers = Map.empty, Path = ''/p?token=xyz''\<rparr> =
         Some (Inl (Panic ''regexp: Compile: missing closing )'')) \<and>
     getCredFromQuery ''/p?a=1'' ''a['' = Some (Inl (Panic ''index out of range'')) \<and>
     getCredFromQuery ''/p?token=xyz'' ''a['' = Some (Inl (Err ''credential not found''))"
    by (intro conjI) code_simp+
  show ?thesis by (rule conjI [OF general examples])
qed

text \<open>
  Counterexample to claim C10 as stated: with the key \<open>a[\<close> the expression compiles (its bracket
  is closed by the one of \<^verbatim>\<open>[^&]\<close>) to an expression with one group and no group of the name
  \<open>credValue\<close>; \<open>MustCompile\<close> does not panic and the locator returns an error.
\<close>

theorem bracket_selector_compiles:
  "(case Compile (''([?&]'' @ ''a['' @ ''=)(?P<'' @ credValue @ ''>[^&]*)'') of
      Parsed regex \<Rightarrow> subexpNames regex = ['''', ''''] \<and> SubexpIndex regex credValue = -1
    | SyntaxError msg \<Rightarrow> False
    | NotModelled \<Rightarrow> False) \<and>
   getCredFromQuery ''/p?token=xyz'' ''a['' = Some (Inl (Err ''credential not found''))"
  by (intro conjI) code_simp+

text \<open>
  Witness for C10: the key \<open>api_key\<close> has no operator, and the locator returns the value of the
  parameter; the regular expression and the literal search differ on \<open>a.c\<close>; the key \<open>(\<close> makes
  \<open>MustCompile\<close> panic.
\<close>

theorem query_selector_is_a_regexp_witness:
  "getCredFromQuery ''/pets?page=2&api_key=s3cr3t'' ''api_key'' = Some (Inr ''s3cr3t'') \<and>
   getCredFromQuery ''/p?abc=1'' ''a.c'' \<noteq> Some (getCredFromQuery_literal ''/p?abc=1'' ''a.c'') \<and>
   getCredFromQuery ''/p?token=xyz'' ''('' = Some (Inl (Panic ''regexp: Compile: missing closing )''))"
proof -
  have h: "list_all plain ''api_key'' \<and> list_all isASCII ''/pets?page=2&api_key=s3cr3t''"
    by (simp add: plain_def isASCII_def)
  have v: "getCredFromQuery_literal ''/pets?page=2&api_key=s3cr3t'' ''api_key'' = Inr ''s3cr3t''"
    by simp
  note t = query_selector_is_a_regexp
  note a = t [THEN conjunct1, THEN spec, THEN spec, THEN mp, OF h]
  have b: "getCredFromQuery ''/p?abc=1'' ''a.c'' \<noteq> Some (getCredFromQuery_literal ''/p?abc=1'' ''a.c'')"
    using t by simp
  have c: "getCredFromQuery ''/p?token=xyz'' ''('' = Some (Inl (Panic ''regexp: Compile: missing closing )''))"
    using t by simp
  show ?thesis by (intro conjI) (rule a [unfolded v] b c)+
qed


section \<open>Verification of the pattern-matching evaluator\<close>

lemma evaluateRule_ruleHolds:
  "evaluateRule regexp r authJSON =
     (case (Operator r, regexp (Value r)) of
        (MatchesOp, Inl err) \<Rightarrow> Inl err
      | _ \<Rightarrow> Inr (ruleHolds regexp r authJSON))"
  by (cases "Operator r")
     (auto simp: evaluateRule_def ruleHolds_def list_ex_iff
           split: sum.splits option.splits json.splits)

lemma compile_error_not_holds:
  "Operator r = MatchesOp \<Longrightarrow> regexp (Value r) = Inl err \<Longrightarrow> \<not> ruleHolds regexp r authJSON"
  by (simp add: ruleHolds_def)

lemma Call_find:
  "JSONPatternMatching_Call regexp rules authJSON =
     (case find (\<lambda>r. \<not> ruleHolds regexp r authJSON) rules of
        None \<Rightarrow> (True, None)
      | Some r \<Rightarrow>
          (False, Some (case (Operator r, regexp (Value r)) of
                          (MatchesOp, Inl err) \<Rightarrow> err
                        | _ \<Rightarrow> ''Unauthorized'')))"
proof (induction rules)
  case Nil
  then show ?case by simp
next
  case (Cons r rules)
  show ?case
  proof (cases "Operator r = MatchesOp \<and> (\<exists>err. regexp (Value r) = Inl err)")
    case True
    then obtain err where e: "Operator r = MatchesOp" "regexp (Value r) = Inl err" by blast
    have "\<not> ruleHolds regexp r authJSON" using e by (rule compile_error_not_holds)
    then show ?thesis using e by (simp add: evaluateRule_ruleHolds)
  next
    case False
    then have "evaluateRule regexp r authJSON = Inr (ruleHolds regexp r authJSON)"
      by (auto simp: evaluateRule_ruleHolds split: operator.splits sum.splits)
    moreover have "(case (Operator r, regexp (Value r)) of
                          (MatchesOp, Inl err) \<Rightarrow> err
                        | _ \<Rightarrow> ''Unauthorized'') = ''Unauthorized''"
      using False by (auto split: operator.splits sum.splits)
    ultimately show ?thesis using Cons.IH by simp
  qed
qed

lemma find_first:
  "(\<forall>q\<in>set pre. \<not> P q) \<Longrightarrow> P r \<Longrightarrow> find P (pre @ r # post) = Some r"
  by (induction pre) auto

text \<open>
  Claim C4 (result of the pattern-matching evaluator, on the model made from the specification,
  for every regular expression package). For every list of rules and every authorization JSON
  the result is given by the first rule that does not hold: \<open>(true, nil)\<close> when there is none,
  \<open>false\<close> and the error of the compilation when that rule is a \<open>matches\<close> rule whose value does
  not compile, and \<open>(false, Unauthorized)\<close> otherwise. Hence the empty list gives \<open>(true, nil)\<close>;
  the call returns \<open>(true, nil)\<close> exactly when every rule holds; when some rule does not hold and
  the value of every \<open>matches\<close> rule compiles, it returns \<open>(false, Unauthorized)\<close>; and when the
  rules before a \<open>matches\<close> rule hold and its value does not compile, it returns \<open>false\<close> and the
  error of the compilation.
\<close>

theorem pattern_matching_result:
  "JSONPatternMatching_Call regexp rules authJSON =
     (case find (\<lambda>r. \<not> ruleHolds regexp r authJSON) rules of
        None \<Rightarrow> (True, None)
      | Some r \<Rightarrow>
          (False, Some (case (Operator r, regexp (Value r)) of
                          (MatchesOp, Inl err) \<Rightarrow> err
                        | _ \<Rightarrow> ''Unauthorized''))) \<and>
   JSONPatternMatching_Call regexp [] authJSON = (True, None) \<and>
   ((\<forall>r\<in>set rules. ruleHolds regexp r authJSON) \<longleftrightarrow>
      JSONPatternMatching_Call regexp rules authJSON = (True, None)) \<and>
   ((\<exists>r\<in>set rules. \<not> ruleHolds regexp r authJSON) \<and>
    (\<forall>r\<in>set rules. Operator r = MatchesOp \<longrightarrow> (\<exists>matchString. regexp (Value r) = Inr matchString)) \<longrightarrow>
      JSONPatternMatching_Call regexp rules authJSON = (False, Some ''Unauthorized'')) \<and>
   (\<forall>pre r post err. rules = pre @ r # post \<and>
        (\<forall>q\<in>set pre. ruleHolds regexp q authJSON) \<and>
        Operator r = MatchesOp \<and> regexp (Value r) = Inl err \<longrightarrow>
      JSONPatternMatching_Call regexp rules authJSON = (False, Some err))"
proof -
  let ?first = "find (\<lambda>r. \<not> ruleHolds regexp r authJSON) rules"
  have a: "JSONPatternMatching_Call regexp rules authJSON =
     (case ?first of
        None \<Rightarrow> (True, None)
      | Some r \<Rightarrow>
          (False, Some (case (Operator r, regexp (Value r)) of
                          (MatchesOp, Inl err) \<Rightarrow> err
                        | _ \<Rightarrow> ''Unauthorized'')))"
    by (rule Call_find)
  have b: "JSONPatternMatching_Call regexp [] authJSON = (True, None)" by simp
  have c: "(\<forall>r\<in>set rules. ruleHolds regexp r authJSON) \<longleftrightarrow>
      JSONPatternMatching_Call regexp rules authJSON = (True, None)"
  proof (cases ?first)
    case None
    then have "\<forall>r\<in>set rules. ruleHolds regexp r authJSON"
      by (simp add: find_None_iff)
    then show ?thesis unfolding a None by simp
  next
    case (Some r)
    then have "r \<in> set rules \<and> \<not> ruleHolds regexp r authJSON"
      by (auto simp: find_Some_iff)
    then show ?thesis unfolding a Some by auto
  qed
  have d: "(\<exists>r\<in>set rules. \<not> ruleHolds regexp r authJSON) \<and>
    (\<forall>r\<in>set rules. Operator r = MatchesOp \<longrightarrow> (\<exists>matchString. regexp (Value r) = Inr matchString)) \<longrightarrow>
      JSONPatternMatching_Call regexp rules authJSON = (False, Some ''Unauthorized'')"
  proof
    assume h: "(\<exists>r\<in>set rules. \<not> ruleHolds regexp r authJSON) \<and>
      (\<forall>r\<in>set rules. Operator r = MatchesOp \<longrightarrow> (\<exists>matchString. regexp (Value r) = Inr matchString))"
    then obtain r where r: "?first = Some r"
      by (cases ?first) (auto simp: find_None_iff)
    then have "r \<in> set rules" by (auto simp: find_Some_iff)
    then have "Operator r = MatchesOp \<longrightarrow> (\<exists>matchString. regexp (Value r) = Inr matchString)"
      using h by blast
    then have "(case (Operator r, regexp (Value r)) of
                          (MatchesOp, Inl err) \<Rightarrow> err
                        | _ \<Rightarrow> ''Unauthorized'') = ''Unauthorized''"
      by (auto split: operator.splits sum.splits)
    then show "JSONPatternMatching_Call regexp rules authJSON = (False, Some ''Unauthorized'')"
      unfolding a r by simp
  qed
  have e: "\<forall>pre r post err. rules = pre @ r # post \<and>
        (\<forall>q\<in>set pre. ruleHolds regexp q authJSON) \<and>
        Operator r = MatchesOp \<and> regexp (Value r) = Inl err \<longrightarrow>
      JSONPatternMatching_Call regexp rules authJSON = (False, Some err)"
  proof (intro allI impI)
    fix pre r post err
    assume h: "rules = pre @ r # post \<and>
        (\<forall>q\<in>set pre. ruleHolds regexp q authJSON) \<and>
        Operator r = MatchesOp \<and> regexp (Value r) = Inl err"
    then have "\<not> ruleHolds regexp r authJSON" by (simp add: compile_error_not_holds)
    then have "?first = Some r" using h by (simp add: find_first)
    then show "JSONPatternMatching_Call regexp rules authJSON = (False, Some err)"
      unfolding a using h by simp
  qed
  show ?thesis by (intro conjI) (rule a b c d e)+
qed

text \<open>
  The expressions of the test \<open>TestCall\<close> in the regular expression package of the examples: two
  compile, one does not.
\<close>

lemma fragmentRegexp_compiles:
  "\<not> isl (fragmentRegexp ''(.+)-knows'')"
  "\<not> isl (fragmentRegexp (''('' @ [CHR 0x5C] @ ''d)+''))"
  by code_simp+

lemma Compile_not_a_regex: "Compile ''$$^[not-a-regex'' = SyntaxError ''invalid character class range''"
  by code_simp

lemma fragmentRegexp_not_a_regex:
  "fragmentRegexp ''$$^[not-a-regex'' = Inl ''error parsing regexp: invalid character class range''"
  by (simp add: fragmentRegexp_def Compile_not_a_regex)

lemma not_isl_Inr: "\<not> isl x \<Longrightarrow> \<exists>y. x = Inr y"
  by (cases x) simp_all

text \<open>The cases of the test \<open>TestCall\<close>, replayed on the model.\<close>

lemma TestCall_replayed:
  "JSONPatternMatching_Call fragmentRegexp [\<lparr>Selector = secretHeader, Operator = EqOp, Value = ''no-one-knows''\<rparr>] testAuthJSON = (True, None)"
  "JSONPatternMatching_Call fragmentRegexp [\<lparr>Selector = secretHeader, Operator = EqOp, Value = ''other-expected''\<rparr>] testAuthJSON = (False, Some ''Unauthorized'')"
  "JSONPatternMatching_Call fragmentRegexp [\<lparr>Selector = secretHeader, Operator = NeqOp, Value = ''other-expected''\<rparr>] testAuthJSON = (True, None)"
  "JSONPatternMatching_Call fragmentRegexp [\<lparr>Selector = secretHeader, Operator = NeqOp, Value = ''no-one-knows''\<rparr>] testAuthJSON = (False, Some ''Unauthorized'')"
  "JSONPatternMatching_Call fragmentRegexp [\<lparr>Selector = letters, Operator = InclOp, Value = ''a''\<rparr>] testAuthJSON = (True, None)"
  "JSONPatternMatching_Call fragmentRegexp [\<lparr>Selector = letters, Operator = InclOp, Value = ''d''\<rparr>] testAuthJSON = (False, Some ''Unauthorized'')"
  "JSONPatternMatching_Call fragmentRegexp [\<lparr>Selector = letters, Operator = ExclOp, Value = ''d''\<rparr>] testAuthJSON = (True, None)"
  "JSONPatternMatching_Call fragmentRegexp [\<lparr>Selector = letters, Operator = ExclOp, Value = ''b''\<rparr>] testAuthJSON = (False, Some ''Unauthorized'')"
  "JSONPatternMatching_Call fragmentRegexp [matchesKnows] testAuthJSON = (True, None)"
  "JSONPatternMatching_Call fragmentRegexp [matchesDigits] testAuthJSON = (False, Some ''Unauthorized'')"
  "fst (JSONPatternMatching_Call fragmentRegexp [invalidRegex] testAuthJSON) = False"
  "map_option (prefix ''error parsing regexp'')
     (snd (JSONPatternMatching_Call fragmentRegexp [invalidRegex] testAuthJSON)) = Some True"
  "JSONPatternMatching_Call fragmentRegexp allSatisfied testAuthJSON = (True, None)"
  "JSONPatternMatching_Call fragmentRegexp oneUnauthorized testAuthJSON = (False, Some ''Unauthorized'')"
  "JSONPatternMatching_Call fragmentRegexp [] testAuthJSON = (True, None)"
  by code_simp+

text \<open>
  Witness for C4: rule lists of the test \<open>TestCall\<close>. The five rules that hold, followed by the
  expression that matches; the expression that compiles and does not match; the rules that
  hold, followed by the expression that does not compile.
\<close>

theorem pattern_matching_result_witness:
  "JSONPatternMatching_Call fragmentRegexp (allSatisfied @ [matchesKnows]) testAuthJSON = (True, None) \<and>
   JSONPatternMatching_Call fragmentRegexp [matchesDigits] testAuthJSON = (False, Some ''Unauthorized'') \<and>
   JSONPatternMatching_Call fragmentRegexp oneUnauthorized testAuthJSON = (False, Some ''Unauthorized'') \<and>
   JSONPatternMatching_Call fragmentRegexp (allSatisfied @ [invalidRegex, matchesDigits]) testAuthJSON =
     (False, Some ''error parsing regexp: invalid character class range'')"
proof -
  have h1: "\<forall>r\<in>set (allSatisfied @ [matchesKnows]). ruleHolds fragmentRegexp r testAuthJSON"
    by code_simp
  have h2: "(\<exists>r\<in>set [matchesDigits]. \<not> ruleHolds fragmentRegexp r testAuthJSON) \<and>
      (\<forall>r\<in>set [matchesDigits]. Operator r = MatchesOp \<longrightarrow>
         (\<exists>matchString. fragmentRegexp (Value r) = Inr matchString))"
  proof
    show "\<exists>r\<in>set [matchesDigits]. \<not> ruleHolds fragmentRegexp r testAuthJSON" by code_simp
    show "\<forall>r\<in>set [matchesDigits]. Operator r = MatchesOp \<longrightarrow>
         (\<exists>matchString. fragmentRegexp (Value r) = Inr matchString)"
      using not_isl_Inr [OF fragmentRegexp_compiles(2)] by (simp add: matchesDigits_def)
  qed
  have h3: "(\<exists>r\<in>set oneUnauthorized. \<not> ruleHolds fragmentRegexp r testAuthJSON) \<and>
      (\<forall>r\<in>set oneUnauthorized. Operator r = MatchesOp \<longrightarrow>
         (\<exists>matchString. fragmentRegexp (Value r) = Inr matchString))"
  proof
    show "\<exists>r\<in>set oneUnauthorized. \<not> ruleHolds fragmentRegexp r testAuthJSON" by code_simp
    show "\<forall>r\<in>set oneUnauthorized. Operator r = MatchesOp \<longrightarrow>
         (\<exists>matchString. fragmentRegexp (Value r) = Inr matchString)"
      by (simp add: oneUnauthorized_def)
  qed
  have h4: "allSatisfied @ [invalidRegex, matchesDigits] = allSatisfied @ invalidRegex # [matchesDigits] \<and>
      (\<forall>q\<in>set allSatisfied. ruleHolds fragmentRegexp q testAuthJSON) \<and>
      Operator invalidRegex = MatchesOp \<and>
      fragmentRegexp (Value invalidRegex) = Inl ''error parsing regexp: invalid character class range''"
  proof (intro conjI)
    show "\<forall>q\<in>set allSatisfied. ruleHolds fragmentRegexp q testAuthJSON" by code_simp
    show "fragmentRegexp (Value invalidRegex) = Inl ''error parsing regexp: invalid character class range''"
      by (simp add: invalidRegex_def fragmentRegexp_not_a_regex)
  qed (simp_all add: invalidRegex_def)
  note t = pattern_matching_result [of fragmentRegexp _ testAuthJSON]
  note t1 = t [of "allSatisfied @ [matchesKnows]", THEN conjunct2, THEN conjunct2, THEN conjunct1,
      THEN iffD1, OF h1]
  note t2 = t [of "[matchesDigits]", THEN conjunct2, THEN conjunct2, THEN conjunct2, THEN conjunct1,
      THEN mp, OF h2]
  note t3 = t [of oneUnauthorized, THEN conjunct2, THEN conjunct2, THEN conjunct2, THEN conjunct1,
      THEN mp, OF h3]
  note t4 = t [of "allSatisfied @ [invalidRegex, matchesDigits]", THEN conjunct2, THEN conjunct2,
      THEN conjunct2, THEN conjunct2, THEN spec, THEN spec, THEN spec, THEN spec, THEN mp, OF h4]
  show ?thesis by (intro conjI) (rule t1 t2 t3 t4)+
qed

end
